theory Spec2Isabelle
  imports Complex_Main "HOL-Library.Word"
begin

section \<open>MiniVideo: sample map, IDR filter, H.264 dispatcher, utilities\<close>

text \<open>
  A shallow embedding of \<^verbatim>\<open>bitstream_map.c\<close>, \<^verbatim>\<open>demuxer/filter.c\<close>,
  \<^verbatim>\<open>decoder/h264/h264.c\<close> and \<^verbatim>\<open>utils.c\<close>.  Return codes are C ints; a null
  pointer is \<open>None\<close>; behaviour that C leaves undefined and that well-formed input can
  reach (a division by zero, an index past a fixed-size local array, a null dereference)
  is a value of type \<open>fault\<close>.
\<close>

subsection \<open>Return codes and faults\<close>

definition SUCCESS :: int where
  "SUCCESS = 1"

definition FAILURE :: int where
  "FAILURE = 0"

datatype fault = DivisionByZero | OutOfBounds | NullDereference

subsection \<open>IEEE binary64 arithmetic, as far as the sources use it\<close>

text \<open>
  A C \<^verbatim>\<open>double\<close> is modelled by the rational number it denotes.  \<open>double_round\<close> is
  rounding to the nearest value with a 53-bit significand, ties to even; the exponent
  range is not modelled (every quantity below lies between \<open>2^-40\<close> and \<open>2^40\<close>, or
  is zero).  Each arithmetic operation is the exact operation followed by one rounding.
\<close>

function floorlog2 :: "int \<Rightarrow> int" where
  "floorlog2 n = (if n < 2 then 0 else 1 + floorlog2 (n div 2))"
  by pat_completeness auto
termination
  by (relation "measure nat") auto

declare floorlog2.simps [simp del]

definition pow2 :: "int \<Rightarrow> rat" where
  "pow2 e = (if 0 \<le> e then 2 ^ nat e else 1 / 2 ^ nat (- e))"

definition round_half_even :: "rat \<Rightarrow> int" where
  "round_half_even r =
     (let f = \<lfloor>r\<rfloor>; d = r - of_int f
      in if d < 1 / 2 then f
         else if 1 / 2 < d then f + 1
         else if even f then f else f + 1)"

definition double_round :: "rat \<Rightarrow> rat" where
  "double_round x =
     (if x = 0 then 0
      else let a = \<bar>x\<bar>;
               (p, q) = quotient_of a;
               e0 = floorlog2 p - floorlog2 q;
               e = (if pow2 e0 \<le> a then e0 else e0 - 1);
               ulp = pow2 (e - 52)
           in sgn x * of_int (round_half_even (a / ulp)) * ulp)"

definition double_mul :: "rat \<Rightarrow> rat \<Rightarrow> rat" where
  "double_mul x y = double_round (x * y)"

definition double_div :: "rat \<Rightarrow> rat \<Rightarrow> rat" where
  "double_div x y = double_round (x / y)"

text \<open>\<^verbatim>\<open>ceil\<close> is exact; the cast \<^verbatim>\<open>(int)\<close> truncates towards zero.\<close>

definition c_ceil :: "rat \<Rightarrow> int" where
  "c_ceil x = \<lceil>x\<rceil>"

definition c_trunc :: "rat \<Rightarrow> int" where
  "c_trunc x = (if 0 \<le> x then \<lfloor>x\<rfloor> else \<lceil>x\<rceil>)"

text \<open>C integer division truncates towards zero; the divisor is checked by the caller.\<close>

definition c_div :: "int \<Rightarrow> int \<Rightarrow> int" where
  "c_div a b = sgn a * sgn b * (\<bar>a\<bar> div \<bar>b\<bar>)"

subsection \<open>\<^verbatim>\<open>utils.c\<close>: \<^verbatim>\<open>is_prime\<close>\<close>

text \<open>
  \<^verbatim>\<open>for (i = 2; i < sqrt(n); i += 2) if ((n % i == 0) && (i != n)) return 0;\<close>
  The comparison is made on doubles.  \<^verbatim>\<open>sqrt\<close> is correctly rounded, rounding is
  monotone and leaves integers fixed, so for 32-bit \<open>n\<close> the test \<^verbatim>\<open>i < sqrt(n)\<close> has
  the value of the same test on real numbers, which is what the model writes.
\<close>

function is_prime_loop :: "nat \<Rightarrow> nat \<Rightarrow> int" where
  "is_prime_loop n i =
     (if real i < sqrt (real n)
      then (if n mod i = 0 \<and> i \<noteq> n then 0 else is_prime_loop n (i + 2))
      else 1)"
  by pat_completeness auto
termination
proof (relation "measure (\<lambda>(n, i). n - i)")
  show "wf (measure (\<lambda>(n, i). n - i))"
    by simp
next
  fix n i :: nat
  assume lt: "real i < sqrt (real n)"
  have "sqrt (real n) \<le> real n"
  proof (cases "n = 0")
    case True
    then show ?thesis by simp
  next
    case False
    then have "real n \<le> real n * real n" by simp
    then have "sqrt (real n) \<le> sqrt (real n * real n)"
      by (rule real_sqrt_le_mono)
    then show ?thesis by simp
  qed
  with lt have "i < n" by simp
  then show "((n, i + 2), (n, i)) \<in> measure (\<lambda>(n, i). n - i)"
    by simp
qed

declare is_prime_loop.simps [simp del]

definition is_prime :: "nat \<Rightarrow> int" where
  "is_prime n = (if n > 9999 then 0 else is_prime_loop n 2)"

subsection \<open>\<^verbatim>\<open>h264.c\<close>: the decoding context\<close>

text \<open>
  The fields of \<^verbatim>\<open>DecodingContext_t\<close> that \<^verbatim>\<open>checkDecodingContext\<close> and
  \<^verbatim>\<open>computeNormAdjust\<close> read or write.  The bit reader, the NAL unit and the SPS are
  opaque here; a PPS carries the id of its SPS, a slice the id of its PPS.
\<close>

datatype Bitstream_t = Bitstream

datatype nalu_t = Nalu

datatype sps_t = Sps

record pps_t =
  seq_parameter_set_id :: nat

record slice_t =
  pic_parameter_set_id :: nat

record DecodingContext_t =
  bitstr :: "Bitstream_t option"
  active_nalu :: "nalu_t option"
  sps_array :: "sps_t option list"
  pps_array :: "pps_t option list"
  active_sps :: nat
  active_pps :: nat
  active_slice :: "slice_t option"
  normAdjust4x4 :: "int list list list"
  normAdjust8x8 :: "int list list list"

subsection \<open>\<^verbatim>\<open>h264.c\<close>: \<^verbatim>\<open>checkDecodingContext\<close>\<close>

text \<open>
  Every pointer dereference and every read of a parameter-set slot is written as an
  operation that can fault, in the order the C function performs them.  The C function
  has no early return: all five tests run, and \<^verbatim>\<open>retcode\<close> is lowered by each that
  fails.
\<close>

definition deref :: "'a option \<Rightarrow> fault + 'a" where
  "deref p = (case p of None \<Rightarrow> Inl NullDereference | Some v \<Rightarrow> Inr v)"

definition slot :: "'a list \<Rightarrow> nat \<Rightarrow> fault + 'a" where
  "slot xs i = (if i < length xs then Inr (xs ! i) else Inl OutOfBounds)"

definition and_then :: "fault + 'a \<Rightarrow> ('a \<Rightarrow> fault + 'b) \<Rightarrow> fault + 'b" where
  "and_then r f = (case r of Inl e \<Rightarrow> Inl e | Inr v \<Rightarrow> f v)"

definition checkDecodingContext :: "DecodingContext_t \<Rightarrow> fault + int" where
  "checkDecodingContext dc =
     (let retcode = SUCCESS;
          retcode = (if bitstr dc = None then FAILURE else retcode);
          retcode = (if active_nalu dc = None then FAILURE else retcode)
      in and_then (slot (sps_array dc) (active_sps dc)) (\<lambda>sps_in_use.
         let retcode = (if sps_in_use = None then FAILURE else retcode)
         in and_then (slot (pps_array dc) (active_pps dc)) (\<lambda>pps_in_use.
            let retcode = (if pps_in_use = None then FAILURE else retcode)
            in if active_slice dc = None then Inr FAILURE
               else and_then (deref (active_slice dc)) (\<lambda>slice.
                    and_then (slot (pps_array dc) (pic_parameter_set_id slice)) (\<lambda>pps.
                    if pps = None then Inr FAILURE
                    else and_then (deref pps) (\<lambda>pps_v.
                         and_then (slot (sps_array dc) (seq_parameter_set_id pps_v)) (\<lambda>sps.
                         if sps = None then Inr FAILURE else Inr retcode)))))))"

text \<open>A slot of a parameter-set array is present: the index is in range and the entry non-null.\<close>

definition present :: "'a option list \<Rightarrow> nat \<Rightarrow> bool" where
  "present xs i = (i < length xs \<and> xs ! i \<noteq> None)"

subsection \<open>\<^verbatim>\<open>h264.c\<close>: \<^verbatim>\<open>computeNormAdjust\<close>\<close>

definition v4x4 :: "int list list" where
  "v4x4 =
     [[10, 16, 13],
      [11, 18, 14],
      [13, 20, 16],
      [14, 23, 18],
      [16, 25, 20],
      [18, 29, 23]]"

definition v8x8 :: "int list list" where
  "v8x8 =
     [[20, 18, 32, 19, 25, 24],
      [22, 19, 35, 21, 28, 26],
      [26, 23, 42, 24, 33, 31],
      [28, 25, 45, 26, 35, 33],
      [32, 28, 51, 30, 40, 38],
      [36, 32, 58, 34, 46, 43]]"

definition entry4x4 :: "nat \<Rightarrow> nat \<Rightarrow> nat \<Rightarrow> int" where
  "entry4x4 q i j =
     (if i mod 2 = 0 \<and> j mod 2 = 0 then v4x4 ! q ! 0
      else if i mod 2 = 1 \<and> j mod 2 = 1 then v4x4 ! q ! 1
      else v4x4 ! q ! 2)"

definition entry8x8 :: "nat \<Rightarrow> nat \<Rightarrow> nat \<Rightarrow> int" where
  "entry8x8 q i j =
     (if i mod 4 = 0 \<and> j mod 4 = 0 then v8x8 ! q ! 0
      else if i mod 2 = 1 \<and> j mod 2 = 1 then v8x8 ! q ! 1
      else if i mod 4 = 2 \<and> j mod 4 = 2 then v8x8 ! q ! 2
      else if (i mod 4 = 0 \<and> j mod 2 = 1) \<or> (i mod 2 = 1 \<and> j mod 4 = 0) then v8x8 ! q ! 3
      else if (i mod 4 = 0 \<and> j mod 4 = 2) \<or> (i mod 4 = 2 \<and> j mod 4 = 0) then v8x8 ! q ! 4
      else v8x8 ! q ! 5)"

text \<open>
  The three nested loops assign every cell \<open>[q][i][j]\<close> exactly once, with a value that
  depends on \<open>q\<close>, \<open>i\<close>, \<open>j\<close> only; the tables they leave are the comprehensions below.
\<close>

definition computeNormAdjust :: "DecodingContext_t option \<Rightarrow> int \<times> DecodingContext_t option" where
  "computeNormAdjust dc_ptr =
     (case dc_ptr of
        None \<Rightarrow> (FAILURE, None)
      | Some dc \<Rightarrow>
          (SUCCESS,
           Some (dc\<lparr>normAdjust4x4 :=
                      map (\<lambda>q. map (\<lambda>i. map (\<lambda>j. entry4x4 q i j) [0..<4]) [0..<4]) [0..<6],
                    normAdjust8x8 :=
                      map (\<lambda>q. map (\<lambda>i. map (\<lambda>j. entry8x8 q i j) [0..<8]) [0..<8]) [0..<6]\<rparr>)))"

subsection \<open>\<^verbatim>\<open>h264.c\<close>: the dispatch loop of \<^verbatim>\<open>h264_decode\<close>\<close>

text \<open>
  The loop calls helpers that live in other files: \<^verbatim>\<open>buffer_feed_next_sample\<close>,
  \<^verbatim>\<open>nalu_parse_header\<close> and the handlers \<^verbatim>\<open>decode_slice\<close>, \<^verbatim>\<open>decodeSEI\<close>,
  \<^verbatim>\<open>decodeSPS\<close>, \<^verbatim>\<open>decodePPS\<close>.  What they return in one iteration is a
  \<open>nal_event\<close>; the input of a run is the stream of events, indexed by iteration.
  \<open>decoder_state\<close> holds the local \<^verbatim>\<open>retcode\<close> and the fields of the context that
  the loop itself reads and writes.
\<close>

record nal_event =
  feed_retcode :: int
  header_ok :: bool
  nal_unit_type :: nat
  handler_ok :: bool

record decoder_state =
  retcode :: int
  decoderRunning :: bool
  IdrPicFlag :: bool
  idrCounter :: int
  frameCounter :: int
  errorCounter :: int

definition NALU_TYPE_SLICE :: nat where
  "NALU_TYPE_SLICE = 1"

definition NALU_TYPE_IDR :: nat where
  "NALU_TYPE_IDR = 5"

definition NALU_TYPE_SEI :: nat where
  "NALU_TYPE_SEI = 6"

definition NALU_TYPE_SPS :: nat where
  "NALU_TYPE_SPS = 7"

definition NALU_TYPE_PPS :: nat where
  "NALU_TYPE_PPS = 8"

text \<open>The \<^verbatim>\<open>switch\<close> on \<^verbatim>\<open>nal_unit_type\<close>.\<close>

definition dispatch_nalu :: "decoder_state \<Rightarrow> nal_event \<Rightarrow> decoder_state" where
  "dispatch_nalu s e =
     (if nal_unit_type e = NALU_TYPE_SLICE then s
      else if nal_unit_type e = NALU_TYPE_IDR then
        (let s = s\<lparr>IdrPicFlag := True\<rparr>;
             s = (if handler_ok e
                  then s\<lparr>retcode := SUCCESS,
                         errorCounter := 0,
                         idrCounter := idrCounter s + 1,
                         frameCounter := frameCounter s + 1\<rparr>
                  else s\<lparr>errorCounter := errorCounter s + 1\<rparr>)
         in s\<lparr>IdrPicFlag := False\<rparr>)
      else if nal_unit_type e = NALU_TYPE_SEI \<or> nal_unit_type e = NALU_TYPE_SPS
              \<or> nal_unit_type e = NALU_TYPE_PPS then
        (if handler_ok e then s\<lparr>retcode := SUCCESS\<rparr>
         else s\<lparr>errorCounter := errorCounter s + 1\<rparr>)
      else s\<lparr>errorCounter := errorCounter s + 1\<rparr>)"

text \<open>The loop body up to and including \<^verbatim>\<open>nalu_reset\<close> or the \<^verbatim>\<open>else\<close> branch.\<close>

definition loop_body :: "decoder_state \<Rightarrow> nal_event \<Rightarrow> decoder_state" where
  "loop_body s e =
     (let s = s\<lparr>retcode := feed_retcode e\<rparr>
      in if header_ok e then dispatch_nalu s e
         else s\<lparr>errorCounter := errorCounter s + 1\<rparr>)"

text \<open>The two tests that end every iteration.\<close>

definition loop_check :: "int \<Rightarrow> decoder_state \<Rightarrow> decoder_state" where
  "loop_check picture_number s =
     (let s = (if idrCounter s = picture_number
               then s\<lparr>retcode := SUCCESS, decoderRunning := False\<rparr> else s)
      in if errorCounter s > 64 \<or> retcode s = FAILURE
         then s\<lparr>retcode := FAILURE, decoderRunning := False\<rparr> else s)"


text \<open>
  The state on entry to the loop: \<^verbatim>\<open>retcode = FAILURE\<close>, the counters zeroed by the
  \<^verbatim>\<open>calloc\<close> of \<^verbatim>\<open>initDecodingContext\<close>, \<^verbatim>\<open>decoderRunning = true\<close>.
\<close>

definition initial_state :: decoder_state where
  "initial_state =
     \<lparr>retcode = FAILURE, decoderRunning = True, IdrPicFlag = False,
      idrCounter = 0, frameCounter = 0, errorCounter = 0\<rparr>"






subsection \<open>\<^verbatim>\<open>bitstream_map.c\<close>: the sample map\<close>

text \<open>
  \<^verbatim>\<open>BitstreamMap_t\<close>.  The per-sample arrays are lists; \<^verbatim>\<open>sample_type\<close> and
  \<^verbatim>\<open>sample_size\<close> hold \<^verbatim>\<open>uint32_t\<close>, the other three \<^verbatim>\<open>int64_t\<close> (the casts of
  \<^verbatim>\<open>init_bitstream_map\<close>).  The counters are natural numbers; the statements below are
  about maps whose counters fit 31 bits, where the conversions between \<^verbatim>\<open>int\<close> and
  \<^verbatim>\<open>unsigned\<close> that the C expressions imply keep every value.
\<close>

record BitstreamMap_t =
  stream_type :: nat
  stream_codec :: nat
  sample_alignment :: nat
  sample_count :: nat
  sample_count_idr :: nat
  sample_type :: "32 word list"
  sample_size :: "32 word list"
  sample_offset :: "64 word list"
  sample_pts :: "64 word list"
  sample_dts :: "64 word list"

text \<open>Whether each of the six \<^verbatim>\<open>calloc\<close> calls of \<^verbatim>\<open>init_bitstream_map\<close> returns memory.\<close>

record calloc_results =
  map_allocated :: bool
  sample_type_allocated :: bool
  sample_size_allocated :: bool
  sample_offset_allocated :: bool
  sample_pts_allocated :: bool
  sample_dts_allocated :: bool

text \<open>
  \<^verbatim>\<open>init_bitstream_map(&p, entries)\<close>: the argument is the handle \<^verbatim>\<open>*bitstream_map\<close>
  on entry, the result the return code and the handle on exit.
\<close>

definition init_bitstream_map ::
  "calloc_results \<Rightarrow> BitstreamMap_t option \<Rightarrow> nat \<Rightarrow> int \<times> BitstreamMap_t option" where
  "init_bitstream_map heap bitstream_map entries =
     (if bitstream_map \<noteq> None then (FAILURE, bitstream_map)
      else if entries = 0 then (FAILURE, bitstream_map)
      else if \<not> map_allocated heap then (FAILURE, None)
      else if \<not> sample_type_allocated heap \<or> \<not> sample_size_allocated heap
              \<or> \<not> sample_offset_allocated heap \<or> \<not> sample_pts_allocated heap
              \<or> \<not> sample_dts_allocated heap
      then (FAILURE, None)
      else (SUCCESS,
            Some \<lparr>stream_type = 0, stream_codec = 0, sample_alignment = 0,
                  sample_count = 0, sample_count_idr = 0,
                  sample_type = replicate entries 0,
                  sample_size = replicate entries 0,
                  sample_offset = replicate entries 0,
                  sample_pts = replicate entries 0,
                  sample_dts = replicate entries 0\<rparr>))"

text \<open>\<^verbatim>\<open>free_bitstream_map(&p)\<close>: releases the map and leaves the handle null.\<close>

definition free_bitstream_map :: "BitstreamMap_t option \<Rightarrow> BitstreamMap_t option" where
  "free_bitstream_map bitstream_map = (case bitstream_map of None \<Rightarrow> None | Some m \<Rightarrow> None)"

subsection \<open>\<^verbatim>\<open>filter.c\<close>: \<^verbatim>\<open>idr_filtering\<close>\<close>

datatype picture_extraction_mode = PICTURE_UNFILTERED | PICTURE_ORDERED | PICTURE_DISTRIBUTED

text \<open>
  Two variables of type \<^verbatim>\<open>BitstreamMap_t *\<close> are in play: the caller's handle and the
  local \<^verbatim>\<open>map_filtered\<close>.  The parameter \<^verbatim>\<open>bitstream_map_pointer\<close> is a reference to
  one of them.
\<close>

datatype handle_ref = Caller_handle | Local_map_filtered

record handles =
  caller_handle :: "BitstreamMap_t option"
  map_filtered :: "BitstreamMap_t option"

definition load :: "handle_ref \<Rightarrow> handles \<Rightarrow> BitstreamMap_t option" where
  "load r hs = (case r of Caller_handle \<Rightarrow> caller_handle hs | Local_map_filtered \<Rightarrow> map_filtered hs)"

definition store :: "handle_ref \<Rightarrow> BitstreamMap_t option \<Rightarrow> handles \<Rightarrow> handles" where
  "store r v hs =
     (case r of Caller_handle \<Rightarrow> hs\<lparr>caller_handle := v\<rparr>
              | Local_map_filtered \<Rightarrow> hs\<lparr>map_filtered := v\<rparr>)"

text \<open>
  \<^verbatim>\<open>for (i = spspps; i < map->sample_count; i++) payload += map->sample_size[i];\<close>
  \<^verbatim>\<open>payload\<close> is an \<^verbatim>\<open>int\<close> and the sizes are \<^verbatim>\<open>uint32_t\<close>: the sum is taken modulo
  \<open>2^32\<close> and read back as a signed value.
\<close>

definition payload_sum :: "BitstreamMap_t \<Rightarrow> int \<Rightarrow> 32 word" where
  "payload_sum m spspps =
     foldl (\<lambda>payload i. payload + sample_size m ! i) 0 [nat spspps..<sample_count m]"

text \<open>
  \<^verbatim>\<open>(int)(((double)payload / (double)map->sample_count_idr) / 1.66)\<close>.  With no IDR
  sample the quotient is not a number and C gives the cast no value; the model says 0
  there, and the first cut, whose range is then empty, never reads it.
\<close>

definition frame_sizethreshold :: "32 word \<Rightarrow> nat \<Rightarrow> int" where
  "frame_sizethreshold payload count_idr =
     (if count_idr = 0 then 0
      else c_trunc (double_div (double_div (of_int (sint payload)) (of_nat count_idr))
                               (double_round (166 / 100))))"

text \<open>\<^verbatim>\<open>(int)ceil(map->sample_count_idr * 0.03)\<close>\<close>

definition frame_borders :: "nat \<Rightarrow> int" where
  "frame_borders count_idr = c_ceil (double_mul (of_nat count_idr) (double_round (3 / 100)))"

text \<open>
  The first cut.  The state is \<^verbatim>\<open>temporary_sample_id\<close> (999 ints, zeroed) and
  \<^verbatim>\<open>temporary_totalsamples_idr\<close>.  The size is compared as \<^verbatim>\<open>uint32_t\<close> against the
  converted threshold.  A write at index 999 or beyond is past the array.
\<close>

function first_cut ::
  "BitstreamMap_t \<Rightarrow> int \<Rightarrow> int \<Rightarrow> int \<Rightarrow> int \<Rightarrow> int list \<times> nat \<Rightarrow> fault + (int list \<times> nat)" where
  "first_cut m spspps threshold hi i st =
     (if i < hi
      then (if word_of_int threshold < sample_size m ! nat (i + spspps)
            then (if snd st < length (fst st)
                  then first_cut m spspps threshold hi (i + 1)
                         ((fst st)[snd st := i + spspps], Suc (snd st))
                  else Inl OutOfBounds)
            else first_cut m spspps threshold hi (i + 1) st)
      else Inr st)"
  by pat_completeness auto
termination
  by (relation "measure (\<lambda>(m, spspps, threshold, hi, i, st). nat (hi - i))") auto

declare first_cut.simps [simp del]

text \<open>The four assignments that copy sample \<open>src\<close> of \<open>m\<close> to slot \<open>dst\<close> of the new map.\<close>

definition copy_sample :: "BitstreamMap_t \<Rightarrow> nat \<Rightarrow> nat \<Rightarrow> BitstreamMap_t \<Rightarrow> BitstreamMap_t" where
  "copy_sample m src dst mf =
     mf\<lparr>sample_type := (sample_type mf)[dst := sample_type m ! src],
        sample_pts := (sample_pts mf)[dst := sample_pts m ! src],
        sample_offset := (sample_offset mf)[dst := sample_offset m ! src],
        sample_size := (sample_size mf)[dst := sample_size m ! src]\<rparr>"

text \<open>A read of \<^verbatim>\<open>temporary_sample_id[k]\<close>.\<close>

definition temporary_read :: "int list \<Rightarrow> int \<Rightarrow> fault + int" where
  "temporary_read ids k =
     (if 0 \<le> k \<and> k < int (length ids) then Inr (ids ! nat k) else Inl OutOfBounds)"

text \<open>The second cut: \<^verbatim>\<open>for (i = 0; i < picture_number; i++)\<close>, over the list of its indices.\<close>

fun second_cut ::
  "picture_extraction_mode \<Rightarrow> BitstreamMap_t \<Rightarrow> int \<Rightarrow> int list \<Rightarrow> int \<Rightarrow> nat list
     \<Rightarrow> BitstreamMap_t \<Rightarrow> fault + BitstreamMap_t" where
  "second_cut mode m spspps ids frame_jump [] mf = Inr mf"
| "second_cut mode m spspps ids frame_jump (i # is) mf =
     (case mode of
        PICTURE_ORDERED \<Rightarrow>
          and_then (temporary_read ids (int i)) (\<lambda>src.
            second_cut mode m spspps ids frame_jump is
              (copy_sample m (nat src) (nat (spspps + int i)) mf))
      | PICTURE_DISTRIBUTED \<Rightarrow>
          and_then (temporary_read ids (int i * frame_jump)) (\<lambda>src.
            second_cut mode m spspps ids frame_jump is
              (copy_sample m (nat src) (nat (spspps + int i)) mf))
      | PICTURE_UNFILTERED \<Rightarrow> second_cut mode m spspps ids frame_jump is mf)"

text \<open>
  The block guarded by \<^verbatim>\<open>if (retcode)\<close> up to the recap: the counters of the new
  map, the copy of the leading SPS and PPS samples, the second cut.
\<close>

definition write_filtered ::
  "picture_extraction_mode \<Rightarrow> BitstreamMap_t \<Rightarrow> int \<Rightarrow> int list \<Rightarrow> nat \<Rightarrow> int \<Rightarrow> int
     \<Rightarrow> BitstreamMap_t \<Rightarrow> fault + BitstreamMap_t" where
  "write_filtered mode m spspps temporary_sample_id temporary_totalsamples_idr picture_number
     frame_jump mf =
     (let mf = mf\<lparr>sample_count := nat (spspps + int temporary_totalsamples_idr),
                  sample_count_idr := temporary_totalsamples_idr\<rparr>;
          mf = fold (\<lambda>i. copy_sample m i i) [0..<nat spspps] mf
      in second_cut mode m spspps temporary_sample_id frame_jump [0..<nat picture_number] mf)"

text \<open>
  Lines 179 and 180: \<^verbatim>\<open>free_bitstream_map(bitstream_map_pointer)\<close> acts on the variable
  the parameter refers to; \<^verbatim>\<open>bitstream_map_pointer = &map_filtered\<close> then changes the
  parameter, a local of the function, and no variable of type \<^verbatim>\<open>BitstreamMap_t *\<close>.
  The result is the handles and the final value of the parameter.
\<close>

definition erase_and_replace :: "handle_ref \<Rightarrow> handles \<Rightarrow> handles \<times> handle_ref" where
  "erase_and_replace bitstream_map_pointer hs =
     (let hs = store bitstream_map_pointer (free_bitstream_map (load bitstream_map_pointer hs)) hs;
          bitstream_map_pointer = Local_map_filtered
      in (hs, bitstream_map_pointer))"

text \<open>
  The filter after the first cut: the second clamp, \<^verbatim>\<open>frame_jump\<close> (an integer
  division, converted to double and back), the allocation, the writes, the replacement.
\<close>

definition after_first_cut ::
  "calloc_results \<Rightarrow> picture_extraction_mode \<Rightarrow> BitstreamMap_t \<Rightarrow> int \<Rightarrow> handle_ref \<Rightarrow> handles
     \<Rightarrow> int \<Rightarrow> int list \<times> nat \<Rightarrow> fault + (int \<times> handles)" where
  "after_first_cut heap mode m spspps bitstream_map_pointer hs picture_number st =
     (let temporary_sample_id = fst st;
          temporary_totalsamples_idr = snd st;
          picture_number =
            (if picture_number > int temporary_totalsamples_idr
             then int temporary_totalsamples_idr else picture_number)
      in if picture_number - 1 = 0 then Inl DivisionByZero
         else
           (let frame_jump =
                  c_trunc (of_int (c_ceil (of_int
                    (c_div (int temporary_totalsamples_idr) (picture_number - 1)))));
                r = init_bitstream_map heap (map_filtered hs)
                      (nat (spspps + int temporary_totalsamples_idr));
                retcode = fst r;
                hs = store Local_map_filtered (snd r) hs
            in if retcode = 0 then Inr (retcode, hs)
               else
                 and_then (deref (map_filtered hs)) (\<lambda>mf.
                 and_then
                   (write_filtered mode m spspps temporary_sample_id temporary_totalsamples_idr
                      picture_number frame_jump mf) (\<lambda>mf.
                 Inr (picture_number,
                      fst (erase_and_replace bitstream_map_pointer
                             (store Local_map_filtered (Some mf) hs)))))))"

text \<open>
  \<^verbatim>\<open>idr_filtering(bitstream_map_pointer, picture_number, picture_extraction_mode)\<close>.
  The argument \<open>bitstream_map_pointer\<close> is \<open>None\<close> for a null pointer and otherwise the
  caller's handle.  The result is the return code and the two handles at the return:
  \<open>caller_handle\<close> is what the caller finds in its variable, \<open>map_filtered\<close> is the local
  that goes out of scope.
\<close>

definition idr_filtering ::
  "calloc_results \<Rightarrow> BitstreamMap_t option option \<Rightarrow> int \<Rightarrow> picture_extraction_mode
     \<Rightarrow> fault + (int \<times> handles)" where
  "idr_filtering heap bitstream_map_pointer picture_number mode =
     (case bitstream_map_pointer of
        None \<Rightarrow> Inr (FAILURE, \<lparr>caller_handle = None, map_filtered = None\<rparr>)
      | Some None \<Rightarrow> Inr (FAILURE, \<lparr>caller_handle = None, map_filtered = None\<rparr>)
      | Some (Some m) \<Rightarrow>
          (let hs = \<lparr>caller_handle = Some m, map_filtered = None\<rparr>;
               picture_number =
                 (if sample_count_idr m = 0 then 0
                  else if int (sample_count_idr m) < picture_number
                       then int (sample_count_idr m) else picture_number)
           in if mode = PICTURE_UNFILTERED then Inr (picture_number, hs)
              else
                (let spspps = int (sample_count m) - int (sample_count_idr m);
                     payload = payload_sum m spspps;
                     threshold = frame_sizethreshold payload (sample_count_idr m);
                     borders = frame_borders (sample_count_idr m)
                 in and_then
                      (first_cut m spspps threshold (int (sample_count_idr m) - borders) borders
                         (replicate 999 0, 0))
                      (after_first_cut heap mode m spspps Caller_handle hs picture_number))))"

text \<open>
  Vocabulary for statements about the filter: the number of leading non-IDR samples,
  the threshold and the border the filter computes for a map, the IDR indices that pass
  the first cut (in decode order), and the maps on which every array read of the filter
  is inside the array.
\<close>

definition spspps_of :: "BitstreamMap_t \<Rightarrow> int" where
  "spspps_of m = int (sample_count m) - int (sample_count_idr m)"

definition threshold_of :: "BitstreamMap_t \<Rightarrow> int" where
  "threshold_of m = frame_sizethreshold (payload_sum m (spspps_of m)) (sample_count_idr m)"

definition survives :: "BitstreamMap_t \<Rightarrow> int \<Rightarrow> bool" where
  "survives m i =
     (frame_borders (sample_count_idr m) \<le> i
      \<and> i < int (sample_count_idr m) - frame_borders (sample_count_idr m)
      \<and> word_of_int (threshold_of m) < sample_size m ! nat (i + spspps_of m))"

definition survivors :: "BitstreamMap_t \<Rightarrow> int list" where
  "survivors m =
     filter (\<lambda>i. word_of_int (threshold_of m) < sample_size m ! nat (i + spspps_of m))
       [frame_borders (sample_count_idr m)
        ..int (sample_count_idr m) - frame_borders (sample_count_idr m) - 1]"

definition valid_map :: "BitstreamMap_t \<Rightarrow> bool" where
  "valid_map m =
     (sample_count_idr m \<le> sample_count m \<and> sample_count m < 2 ^ 31
      \<and> sample_count m \<le> length (sample_type m)
      \<and> sample_count m \<le> length (sample_size m)
      \<and> sample_count m \<le> length (sample_offset m)
      \<and> sample_count m \<le> length (sample_pts m)
      \<and> sample_count m \<le> length (sample_dts m))"

subsection \<open>Concrete inputs\<close>

definition example_dc :: DecodingContext_t where
  "example_dc =
     \<lparr>bitstr = Some Bitstream, active_nalu = Some Nalu,
      sps_array = [Some Sps, None], pps_array = [None, Some \<lparr>seq_parameter_set_id = 0\<rparr>],
      active_sps = 0, active_pps = 1,
      active_slice = Some \<lparr>pic_parameter_set_id = 1\<rparr>,
      normAdjust4x4 = [], normAdjust8x8 = []\<rparr>"

definition all_allocated :: calloc_results where
  "all_allocated =
     \<lparr>map_allocated = True, sample_type_allocated = True, sample_size_allocated = True,
      sample_offset_allocated = True, sample_pts_allocated = True, sample_dts_allocated = True\<rparr>"

definition no_dts_memory :: calloc_results where
  "no_dts_memory = all_allocated\<lparr>sample_dts_allocated := False\<rparr>"

definition dangling_pps_dc :: DecodingContext_t where
  "dangling_pps_dc = example_dc\<lparr>active_slice := Some \<lparr>pic_parameter_set_id = 0\<rparr>\<rparr>"

definition failed_idr_event :: nal_event where
  "failed_idr_event =
     \<lparr>feed_retcode = SUCCESS, header_ok = True, nal_unit_type = NALU_TYPE_IDR, handler_ok = False\<rparr>"

text \<open>One parameter set followed by four IDR samples of 100 bytes each.\<close>

definition map_4idr :: BitstreamMap_t where
  "map_4idr =
     \<lparr>stream_type = 1, stream_codec = 1, sample_alignment = 1,
      sample_count = 5, sample_count_idr = 4,
      sample_type = [7, 5, 5, 5, 5],
      sample_size = [20, 100, 100, 100, 100],
      sample_offset = [10, 30, 130, 230, 330],
      sample_pts = [0, 1, 2, 3, 4],
      sample_dts = [9, 1, 2, 3, 4]\<rparr>"






text \<open>The value of \<^verbatim>\<open>picture_number\<close> after the two clamps of the filter.\<close>

definition clamped :: "BitstreamMap_t \<Rightarrow> int \<Rightarrow> int" where
  "clamped m picture_number =
     (let pn = (if sample_count_idr m = 0 then 0
                else if int (sample_count_idr m) < picture_number
                     then int (sample_count_idr m) else picture_number)
      in if pn > int (length (survivors m)) then int (length (survivors m)) else pn)"

text \<open>What \<^verbatim>\<open>temporary_sample_id\<close> holds after the first cut, when the survivors fit.\<close>

definition recorded :: "BitstreamMap_t \<Rightarrow> int list" where
  "recorded m =
     map (\<lambda>i. i + spspps_of m) (survivors m) @ replicate (999 - length (survivors m)) 0"

text \<open>The map \<^verbatim>\<open>init_bitstream_map\<close> hands to the filter.\<close>

definition fresh_map :: "nat \<Rightarrow> BitstreamMap_t" where
  "fresh_map entries =
     \<lparr>stream_type = 0, stream_codec = 0, sample_alignment = 0,
      sample_count = 0, sample_count_idr = 0,
      sample_type = replicate entries 0,
      sample_size = replicate entries 0,
      sample_offset = replicate entries 0,
      sample_pts = replicate entries 0,
      sample_dts = replicate entries 0\<rparr>"

text \<open>One parameter set followed by five IDR samples of 100 bytes each.\<close>

definition map_5idr :: BitstreamMap_t where
  "map_5idr =
     \<lparr>stream_type = 1, stream_codec = 1, sample_alignment = 1,
      sample_count = 6, sample_count_idr = 5,
      sample_type = [7, 5, 5, 5, 5, 5],
      sample_size = [20, 100, 100, 100, 100, 100],
      sample_offset = [10, 30, 130, 230, 330, 430],
      sample_pts = [0, 1, 2, 3, 4, 5],
      sample_dts = [9, 1, 2, 3, 4, 5]\<rparr>"

text \<open>What the filter builds from \<open>map_4idr\<close> for two pictures in mode ORDERED.\<close>

definition map_4idr_ordered_2 :: BitstreamMap_t where
  "map_4idr_ordered_2 =
     \<lparr>stream_type = 0, stream_codec = 0, sample_alignment = 0,
      sample_count = 3, sample_count_idr = 2,
      sample_type = [7, 5, 5], sample_size = [20, 100, 100],
      sample_offset = [10, 130, 230], sample_pts = [0, 2, 3],
      sample_dts = [0, 0, 0]\<rparr>"

text \<open>What the filter builds from \<open>map_4idr\<close> for two pictures in mode DISTRIBUTED.\<close>

definition map_4idr_distributed_2 :: BitstreamMap_t where
  "map_4idr_distributed_2 =
     \<lparr>stream_type = 0, stream_codec = 0, sample_alignment = 0,
      sample_count = 3, sample_count_idr = 2,
      sample_type = [7, 5, 7], sample_size = [20, 100, 20],
      sample_offset = [10, 130, 10], sample_pts = [0, 2, 0],
      sample_dts = [0, 0, 0]\<rparr>"

text \<open>What the filter builds from \<open>map_5idr\<close> for two pictures in mode ORDERED.\<close>

definition map_5idr_ordered_2 :: BitstreamMap_t where
  "map_5idr_ordered_2 =
     \<lparr>stream_type = 0, stream_codec = 0, sample_alignment = 0,
      sample_count = 4, sample_count_idr = 3,
      sample_type = [7, 5, 5, 0], sample_size = [20, 100, 100, 0],
      sample_offset = [10, 130, 230, 0], sample_pts = [0, 2, 3, 0],
      sample_dts = [0, 0, 0, 0]\<rparr>"

text \<open>One parameter set followed by 1100 IDR samples of 100 bytes each.\<close>

definition map_1100idr :: BitstreamMap_t where
  "map_1100idr =
     \<lparr>stream_type = 1, stream_codec = 1, sample_alignment = 1,
      sample_count = 1101, sample_count_idr = 1100,
      sample_type = 7 # replicate 1100 5,
      sample_size = 20 # replicate 1100 100,
      sample_offset = map (\<lambda>i. of_nat (100 * i)) [0..<1101],
      sample_pts = map of_nat [0..<1101],
      sample_dts = map of_nat [0..<1101]\<rparr>"

text \<open>
  Vocabulary for statements about the slots of the filtered map: every array of \<open>mf\<close>
  has \<open>entries\<close> slots; slot \<open>dst\<close> of \<open>mf\<close> holds sample \<open>src\<close> of \<open>m\<close> in the four
  fields the filter copies; slot \<open>k\<close> of \<open>mf\<close> is as \<^verbatim>\<open>calloc\<close> left it.
\<close>

definition slots :: "BitstreamMap_t \<Rightarrow> nat \<Rightarrow> bool" where
  "slots mf entries =
     (length (sample_type mf) = entries \<and> length (sample_size mf) = entries
      \<and> length (sample_offset mf) = entries \<and> length (sample_pts mf) = entries
      \<and> length (sample_dts mf) = entries)"

definition same_sample :: "BitstreamMap_t \<Rightarrow> nat \<Rightarrow> BitstreamMap_t \<Rightarrow> nat \<Rightarrow> bool" where
  "same_sample m src mf dst =
     (sample_type mf ! dst = sample_type m ! src \<and> sample_pts mf ! dst = sample_pts m ! src
      \<and> sample_offset mf ! dst = sample_offset m ! src
      \<and> sample_size mf ! dst = sample_size m ! src)"

definition blank_sample :: "BitstreamMap_t \<Rightarrow> nat \<Rightarrow> bool" where
  "blank_sample mf k =
     (sample_type mf ! k = 0 \<and> sample_pts mf ! k = 0 \<and> sample_offset mf ! k = 0
      \<and> sample_size mf ! k = 0 \<and> sample_dts mf ! k = 0)"

section \<open>Properties\<close>

subsection \<open>\<^verbatim>\<open>is_prime\<close>\<close>

lemma sqrt_le_self: "sqrt (real n) \<le> real n"
proof (cases "n = 0")
  case True
  then show ?thesis by simp
next
  case False
  then have "real n \<le> real n * real n" by simp
  then have "sqrt (real n) \<le> sqrt (real n * real n)"
    by (rule real_sqrt_le_mono)
  then show ?thesis by simp
qed

lemma sqrt_test: "(real i < sqrt (real n)) = (i * i < n)"
proof -
  have "(real i < sqrt (real n)) = (sqrt (real i * real i) < sqrt (real n))"
    by simp
  also have "\<dots> = (real i * real i < real n)"
    by (rule real_sqrt_less_iff)
  also have "\<dots> = (i * i < n)"
    by (metis of_nat_less_iff of_nat_mult)
  finally show ?thesis .
qed

lemma is_prime_loop_code [code]:
  "is_prime_loop n i =
     (if i * i < n
      then (if n mod i = 0 \<and> i \<noteq> n then 0 else is_prime_loop n (i + 2))
      else 1)"
  by (subst is_prime_loop.simps) (simp only: sqrt_test)

lemma is_prime_loop_zero_iff:
  "is_prime_loop n i = 0 \<longleftrightarrow> (\<exists>k. real (i + 2 * k) < sqrt (real n) \<and> (i + 2 * k) dvd n)"
proof (induction n i rule: is_prime_loop.induct)
  case (1 n i)
  show ?case
  proof (cases "real i < sqrt (real n)")
    case False
    then have "is_prime_loop n i = 1"
      by (subst is_prime_loop.simps) simp
    moreover have "\<not> (\<exists>k. real (i + 2 * k) < sqrt (real n) \<and> (i + 2 * k) dvd n)"
    proof
      assume "\<exists>k. real (i + 2 * k) < sqrt (real n) \<and> (i + 2 * k) dvd n"
      then obtain k where k: "real (i + 2 * k) < sqrt (real n)" by blast
      have "real i \<le> real (i + 2 * k)" by simp
      with k have "real i < sqrt (real n)" by linarith
      with False show False by simp
    qed
    ultimately show ?thesis by simp
  next
    case True
    then have "i \<noteq> n"
      using sqrt_le_self [of n] by auto
    show ?thesis
    proof (cases "n mod i = 0")
      case dv: True
      then have "is_prime_loop n i = 0"
        using True \<open>i \<noteq> n\<close> by (subst is_prime_loop.simps) simp
      moreover have "real (i + 2 * 0) < sqrt (real n) \<and> (i + 2 * 0) dvd n"
        using True dv by auto
      ultimately show ?thesis by blast
    next
      case ndv: False
      then have step: "is_prime_loop n i = is_prime_loop n (i + 2)"
        using True by (subst is_prime_loop.simps) simp
      have ih: "is_prime_loop n (i + 2) = 0 \<longleftrightarrow>
                  (\<exists>k. real (i + 2 + 2 * k) < sqrt (real n) \<and> (i + 2 + 2 * k) dvd n)"
        using "1.IH" [OF True] ndv by simp
      have "(\<exists>k. real (i + 2 * k) < sqrt (real n) \<and> (i + 2 * k) dvd n) \<longleftrightarrow>
            (\<exists>k. real (i + 2 + 2 * k) < sqrt (real n) \<and> (i + 2 + 2 * k) dvd n)"
      proof
        assume "\<exists>k. real (i + 2 * k) < sqrt (real n) \<and> (i + 2 * k) dvd n"
        then obtain k where k: "real (i + 2 * k) < sqrt (real n)" "(i + 2 * k) dvd n" by blast
        have "k \<noteq> 0"
        proof
          assume "k = 0"
          with k(2) have "i dvd n" by simp
          with ndv show False by (simp add: mod_eq_0_iff_dvd)
        qed
        then obtain k' where "k = Suc k'" by (cases k) auto
        then have "i + 2 * k = i + 2 + 2 * k'" by simp
        with k have "real (i + 2 + 2 * k') < sqrt (real n) \<and> (i + 2 + 2 * k') dvd n"
          by (simp only:)
        then show "\<exists>k. real (i + 2 + 2 * k) < sqrt (real n) \<and> (i + 2 + 2 * k) dvd n"
          by (rule exI)
      next
        assume "\<exists>k. real (i + 2 + 2 * k) < sqrt (real n) \<and> (i + 2 + 2 * k) dvd n"
        then obtain k where k: "real (i + 2 + 2 * k) < sqrt (real n)" "(i + 2 + 2 * k) dvd n" by blast
        have "i + 2 + 2 * k = i + 2 * Suc k" by simp
        with k have "real (i + 2 * Suc k) < sqrt (real n) \<and> (i + 2 * Suc k) dvd n"
          by (simp only:)
        then show "\<exists>k. real (i + 2 * k) < sqrt (real n) \<and> (i + 2 * k) dvd n"
          by (rule exI)
      qed
      with step ih show ?thesis by simp
    qed
  qed
qed

lemma is_prime_loop_range: "is_prime_loop n i = 0 \<or> is_prime_loop n i = 1"
proof (induction n i rule: is_prime_loop.induct)
  case (1 n i)
  show ?case
  proof (cases "real i < sqrt (real n)")
    case False
    then have "is_prime_loop n i = 1"
      by (subst is_prime_loop.simps) simp
    then show ?thesis by simp
  next
    case True
    show ?thesis
    proof (cases "n mod i = 0 \<and> i \<noteq> n")
      case hit: True
      with True have "is_prime_loop n i = 0"
        by (subst is_prime_loop.simps) simp
      then show ?thesis by simp
    next
      case miss: False
      have "is_prime_loop n i =
              (if real i < sqrt (real n)
               then (if n mod i = 0 \<and> i \<noteq> n then 0 else is_prime_loop n (i + 2))
               else 1)"
        by (rule is_prime_loop.simps)
      also have "\<dots> = is_prime_loop n (i + 2)"
        using True miss by (simp only: if_True if_False)
      finally have "is_prime_loop n i = is_prime_loop n (i + 2)" .
      with "1.IH" [OF True miss] show ?thesis by simp
    qed
  qed
qed

text \<open>
  C9.  \<^verbatim>\<open>is_prime\<close> answers 0 exactly when \<open>n > 9999\<close> or an even \<open>d \<ge> 2\<close> below
  \<open>sqrt n\<close> divides \<open>n\<close>: the loop starts at 2, advances by 2 and compares against
  \<open>sqrt n\<close>, so odd divisors are never tried.  Otherwise it answers 1.  Consequently
  there is a composite number below 10000, all of whose divisors are odd, that
  \<^verbatim>\<open>is_prime\<close> reports as prime (\<open>9 = 3 * 3\<close>).
\<close>

theorem is_prime_tests_even_divisors_only:
  "(is_prime n = 0 \<longleftrightarrow> 9999 < n \<or> (\<exists>d. even d \<and> 2 \<le> d \<and> real d < sqrt (real n) \<and> d dvd n))
   \<and> (is_prime n = 1 \<longleftrightarrow> is_prime n \<noteq> 0)
   \<and> (\<exists>c<10000. (\<exists>a b. 1 < a \<and> 1 < b \<and> c = a * b) \<and> (\<forall>d. d dvd c \<longrightarrow> odd d)
                     \<and> is_prime c = 1)"
proof (intro conjI)
  have ev: "(\<exists>k. real (2 + 2 * k) < sqrt (real n) \<and> (2 + 2 * k) dvd n) \<longleftrightarrow>
            (\<exists>d. even d \<and> 2 \<le> d \<and> real d < sqrt (real n) \<and> d dvd n)"
  proof
    assume "\<exists>k. real (2 + 2 * k) < sqrt (real n) \<and> (2 + 2 * k) dvd n"
    then obtain k where "real (2 + 2 * k) < sqrt (real n)" "(2 + 2 * k) dvd n" by blast
    moreover have "even (2 + 2 * k)" "2 \<le> 2 + 2 * k" by simp_all
    ultimately show "\<exists>d. even d \<and> 2 \<le> d \<and> real d < sqrt (real n) \<and> d dvd n" by blast
  next
    assume "\<exists>d. even d \<and> 2 \<le> d \<and> real d < sqrt (real n) \<and> d dvd n"
    then obtain d where d: "even d" "2 \<le> d" "real d < sqrt (real n)" "d dvd n" by blast
    from d(1) obtain h where h: "d = 2 * h" by (auto elim: evenE)
    with d(2) have "1 \<le> h" by simp
    then have "d = 2 + 2 * (h - 1)" using h by simp
    with d(3,4) have "real (2 + 2 * (h - 1)) < sqrt (real n) \<and> (2 + 2 * (h - 1)) dvd n"
      by (simp only:)
    then show "\<exists>k. real (2 + 2 * k) < sqrt (real n) \<and> (2 + 2 * k) dvd n"
      by (rule exI)
  qed
  show "is_prime n = 0 \<longleftrightarrow> 9999 < n \<or> (\<exists>d. even d \<and> 2 \<le> d \<and> real d < sqrt (real n) \<and> d dvd n)"
    unfolding is_prime_def using is_prime_loop_zero_iff [of n 2] ev by simp
  show "is_prime n = 1 \<longleftrightarrow> is_prime n \<noteq> 0"
    unfolding is_prime_def using is_prime_loop_range [of n 2] by auto
  have nine: "is_prime 9 \<noteq> 0"
  proof
    assume "is_prime 9 = 0"
    then have "\<exists>k. real (2 + 2 * k) < sqrt (real 9) \<and> (2 + 2 * k) dvd 9"
      unfolding is_prime_def using is_prime_loop_zero_iff [of 9 2] by simp
    then obtain k where "(2 + 2 * k) dvd (9::nat)" by blast
    moreover have "even (2 + 2 * k)" by simp
    ultimately have "even (9::nat)" by (rule dvd_trans [rotated]) 
    then show False by simp
  qed
  have "is_prime 9 = 1"
    using nine is_prime_loop_range [of 9 2] unfolding is_prime_def by auto
  moreover have "\<exists>a b. (1::nat) < a \<and> 1 < b \<and> (9::nat) = a * b"
    by (rule exI [of _ 3], rule exI [of _ 3]) simp
  moreover have "\<forall>d. d dvd (9::nat) \<longrightarrow> odd d"
  proof (intro allI impI)
    fix d :: nat
    assume "d dvd 9"
    show "odd d"
    proof
      assume "even d"
      then have "2 dvd (9::nat)" using \<open>d dvd 9\<close> by (rule dvd_trans)
      then show False by simp
    qed
  qed
  ultimately show "\<exists>c<10000. (\<exists>a b. 1 < a \<and> 1 < b \<and> c = a * b) \<and> (\<forall>d. d dvd c \<longrightarrow> odd d)
                     \<and> is_prime c = 1"
    by (intro exI [of _ 9]) simp
qed

theorem is_prime_witness: "is_prime 9 = 1 \<and> is_prime 12 = 0 \<and> is_prime 10001 = 0"
proof -
  have a: "is_prime 9 = 1"
  proof -
    have "\<not> (\<exists>d. even d \<and> 2 \<le> d \<and> real d < sqrt (real 9) \<and> d dvd 9)"
    proof
      assume "\<exists>d. even d \<and> 2 \<le> d \<and> real d < sqrt (real 9) \<and> d dvd 9"
      then obtain d :: nat where "even d" "d dvd 9" by blast
      then have "2 dvd (9::nat)" by (rule dvd_trans)
      then show False by simp
    qed
    then have "is_prime 9 \<noteq> 0"
      using is_prime_tests_even_divisors_only [of 9] by simp
    then show ?thesis
      using is_prime_tests_even_divisors_only [of 9] by blast
  qed
  have b: "is_prime 12 = 0"
  proof -
    have "real 2 < sqrt (real 12)"
      by (subst sqrt_test) simp
    then have "even (2::nat) \<and> (2::nat) \<le> 2 \<and> real 2 < sqrt (real 12) \<and> 2 dvd (12::nat)"
      by simp
    then show ?thesis
      using is_prime_tests_even_divisors_only [of 12] by blast
  qed
  have c: "is_prime 10001 = 0"
    using is_prime_tests_even_divisors_only [of 10001] by simp
  from a b c show ?thesis
    by simp
qed

subsection \<open>\<^verbatim>\<open>computeNormAdjust\<close>\<close>

lemma v4x4_row: "q < 6 \<Longrightarrow> length (v4x4 ! q) = 3"
proof -
  assume "q < 6"
  then have "q = 0 \<or> q = 1 \<or> q = 2 \<or> q = 3 \<or> q = 4 \<or> q = 5" by arith
  then show ?thesis by (auto simp: v4x4_def)
qed

lemma v8x8_row: "q < 6 \<Longrightarrow> length (v8x8 ! q) = 6"
proof -
  assume "q < 6"
  then have "q = 0 \<or> q = 1 \<or> q = 2 \<or> q = 3 \<or> q = 4 \<or> q = 5" by arith
  then show ?thesis by (auto simp: v8x8_def)
qed

lemma entry4x4_mem: "q < 6 \<Longrightarrow> entry4x4 q i j \<in> set (v4x4 ! q)"
  by (simp add: entry4x4_def v4x4_row)

lemma entry8x8_mem: "q < 6 \<Longrightarrow> entry8x8 q i j \<in> set (v8x8 ! q)"
  by (simp add: entry8x8_def v8x8_row)

lemma table_nth:
  "q < a \<Longrightarrow> i < b \<Longrightarrow> j < c \<Longrightarrow>
   map (\<lambda>q. map (\<lambda>i. map (\<lambda>j. f q i j) [0..<c]) [0..<b]) [0..<a] ! q ! i ! j = f q i j"
  by simp


lemma computeNormAdjust_Some:
  "computeNormAdjust (Some dc) =
     (SUCCESS,
      Some (dc\<lparr>normAdjust4x4 :=
                 map (\<lambda>q. map (\<lambda>i. map (\<lambda>j. entry4x4 q i j) [0..<4]) [0..<4]) [0..<6],
               normAdjust8x8 :=
                 map (\<lambda>q. map (\<lambda>i. map (\<lambda>j. entry8x8 q i j) [0..<8]) [0..<8]) [0..<6]\<rparr>))"
  unfolding computeNormAdjust_def by (simp only: option.case)

lemma entry4x4_parity:
  "entry4x4 q i j =
     (if even i \<and> even j then v4x4 ! q ! 0
      else if odd i \<and> odd j then v4x4 ! q ! 1
      else v4x4 ! q ! 2)"
  unfolding entry4x4_def by (simp add: even_iff_mod_2_eq_zero)

text \<open>
  C7.  On a non-null context \<^verbatim>\<open>computeNormAdjust\<close> succeeds and leaves tables in
  which, for \<open>q < 6\<close>: the entry \<open>[q][i][j]\<close> of \<^verbatim>\<open>normAdjust4x4\<close> (\<open>i, j < 4\<close>) is
  \<open>v4x4[q][0]\<close> if \<open>i\<close> and \<open>j\<close> are both even, \<open>v4x4[q][1]\<close> if both are odd and
  \<open>v4x4[q][2]\<close> otherwise; the entry \<open>[q][i][j]\<close> of \<^verbatim>\<open>normAdjust8x8\<close> (\<open>i, j < 8\<close>)
  is given by the first matching rule of the six-way case distinction on \<open>i mod 4\<close>,
  \<open>j mod 4\<close>, \<open>i mod 2\<close>, \<open>j mod 2\<close>; and every entry is a member of its seed row.
\<close>
theorem computeNormAdjust_tables:
  "\<exists>dc'. computeNormAdjust (Some dc) = (SUCCESS, Some dc')
     \<and> (\<forall>q<6. \<forall>i<4. \<forall>j<4.
           normAdjust4x4 dc' ! q ! i ! j =
             (if even i \<and> even j then v4x4 ! q ! 0
              else if odd i \<and> odd j then v4x4 ! q ! 1
              else v4x4 ! q ! 2)
           \<and> normAdjust4x4 dc' ! q ! i ! j \<in> set (v4x4 ! q))
     \<and> (\<forall>q<6. \<forall>i<8. \<forall>j<8.
           normAdjust8x8 dc' ! q ! i ! j =
             (if i mod 4 = 0 \<and> j mod 4 = 0 then v8x8 ! q ! 0
              else if i mod 2 = 1 \<and> j mod 2 = 1 then v8x8 ! q ! 1
              else if i mod 4 = 2 \<and> j mod 4 = 2 then v8x8 ! q ! 2
              else if (i mod 4 = 0 \<and> j mod 2 = 1) \<or> (i mod 2 = 1 \<and> j mod 4 = 0) then v8x8 ! q ! 3
              else if (i mod 4 = 0 \<and> j mod 4 = 2) \<or> (i mod 4 = 2 \<and> j mod 4 = 0) then v8x8 ! q ! 4
              else v8x8 ! q ! 5)
           \<and> normAdjust8x8 dc' ! q ! i ! j \<in> set (v8x8 ! q))"
proof -
  define t4 where "t4 = map (\<lambda>q. map (\<lambda>i. map (\<lambda>j. entry4x4 q i j) [0..<4]) [0..<4]) [0..<6]"
  define t8 where "t8 = map (\<lambda>q. map (\<lambda>i. map (\<lambda>j. entry8x8 q i j) [0..<8]) [0..<8]) [0..<6]"
  define dc' where "dc' = dc\<lparr>normAdjust4x4 := t4, normAdjust8x8 := t8\<rparr>"
  have run: "computeNormAdjust (Some dc) = (SUCCESS, Some dc')"
    unfolding dc'_def t4_def t8_def by (rule computeNormAdjust_Some)
  have sel: "normAdjust4x4 dc' = t4" "normAdjust8x8 dc' = t8"
    unfolding dc'_def by simp_all
  have a4: "\<forall>q<6. \<forall>i<4. \<forall>j<4.
           normAdjust4x4 dc' ! q ! i ! j =
             (if even i \<and> even j then v4x4 ! q ! 0
              else if odd i \<and> odd j then v4x4 ! q ! 1
              else v4x4 ! q ! 2)
           \<and> normAdjust4x4 dc' ! q ! i ! j \<in> set (v4x4 ! q)"
  proof (intro allI impI)
    fix q i j :: nat
    assume b: "q < 6" "i < 4" "j < 4"
    then have "normAdjust4x4 dc' ! q ! i ! j = entry4x4 q i j"
      unfolding sel t4_def by (rule table_nth)
    then show "normAdjust4x4 dc' ! q ! i ! j =
             (if even i \<and> even j then v4x4 ! q ! 0
              else if odd i \<and> odd j then v4x4 ! q ! 1
              else v4x4 ! q ! 2)
           \<and> normAdjust4x4 dc' ! q ! i ! j \<in> set (v4x4 ! q)"
      using entry4x4_parity [of q i j] entry4x4_mem [OF b(1), of i j] by (simp only:)
  qed
  have a8: "\<forall>q<6. \<forall>i<8. \<forall>j<8.
           normAdjust8x8 dc' ! q ! i ! j =
             (if i mod 4 = 0 \<and> j mod 4 = 0 then v8x8 ! q ! 0
              else if i mod 2 = 1 \<and> j mod 2 = 1 then v8x8 ! q ! 1
              else if i mod 4 = 2 \<and> j mod 4 = 2 then v8x8 ! q ! 2
              else if (i mod 4 = 0 \<and> j mod 2 = 1) \<or> (i mod 2 = 1 \<and> j mod 4 = 0) then v8x8 ! q ! 3
              else if (i mod 4 = 0 \<and> j mod 4 = 2) \<or> (i mod 4 = 2 \<and> j mod 4 = 0) then v8x8 ! q ! 4
              else v8x8 ! q ! 5)
           \<and> normAdjust8x8 dc' ! q ! i ! j \<in> set (v8x8 ! q)"
  proof (intro allI impI)
    fix q i j :: nat
    assume b: "q < 6" "i < 8" "j < 8"
    then have "normAdjust8x8 dc' ! q ! i ! j = entry8x8 q i j"
      unfolding sel t8_def by (rule table_nth)
    then show "normAdjust8x8 dc' ! q ! i ! j =
             (if i mod 4 = 0 \<and> j mod 4 = 0 then v8x8 ! q ! 0
              else if i mod 2 = 1 \<and> j mod 2 = 1 then v8x8 ! q ! 1
              else if i mod 4 = 2 \<and> j mod 4 = 2 then v8x8 ! q ! 2
              else if (i mod 4 = 0 \<and> j mod 2 = 1) \<or> (i mod 2 = 1 \<and> j mod 4 = 0) then v8x8 ! q ! 3
              else if (i mod 4 = 0 \<and> j mod 4 = 2) \<or> (i mod 4 = 2 \<and> j mod 4 = 0) then v8x8 ! q ! 4
              else v8x8 ! q ! 5)
           \<and> normAdjust8x8 dc' ! q ! i ! j \<in> set (v8x8 ! q)"
      using entry8x8_def [of q i j] entry8x8_mem [OF b(1), of i j] by (simp only:)
  qed
  from run a4 a8 show ?thesis by blast
qed

theorem computeNormAdjust_witness:
  "fst (computeNormAdjust (Some example_dc)) = SUCCESS
   \<and> normAdjust4x4 (the (snd (computeNormAdjust (Some example_dc)))) ! 1 ! 2 ! 3 = 14
   \<and> normAdjust8x8 (the (snd (computeNormAdjust (Some example_dc)))) ! 5 ! 6 ! 2 = 58"
proof -
  obtain dc' where run: "computeNormAdjust (Some example_dc) = (SUCCESS, Some dc')"
    and t4: "\<forall>q<6. \<forall>i<4. \<forall>j<4.
           normAdjust4x4 dc' ! q ! i ! j =
             (if even i \<and> even j then v4x4 ! q ! 0
              else if odd i \<and> odd j then v4x4 ! q ! 1
              else v4x4 ! q ! 2)
           \<and> normAdjust4x4 dc' ! q ! i ! j \<in> set (v4x4 ! q)"
    and t8: "\<forall>q<6. \<forall>i<8. \<forall>j<8.
           normAdjust8x8 dc' ! q ! i ! j =
             (if i mod 4 = 0 \<and> j mod 4 = 0 then v8x8 ! q ! 0
              else if i mod 2 = 1 \<and> j mod 2 = 1 then v8x8 ! q ! 1
              else if i mod 4 = 2 \<and> j mod 4 = 2 then v8x8 ! q ! 2
              else if (i mod 4 = 0 \<and> j mod 2 = 1) \<or> (i mod 2 = 1 \<and> j mod 4 = 0) then v8x8 ! q ! 3
              else if (i mod 4 = 0 \<and> j mod 4 = 2) \<or> (i mod 4 = 2 \<and> j mod 4 = 0) then v8x8 ! q ! 4
              else v8x8 ! q ! 5)
           \<and> normAdjust8x8 dc' ! q ! i ! j \<in> set (v8x8 ! q)"
    using computeNormAdjust_tables [of example_dc] by blast
  have "(1::nat) < 6" "(2::nat) < 4" "(3::nat) < 4" by simp_all
  with t4 have "normAdjust4x4 dc' ! 1 ! 2 ! 3 =
             (if even (2::nat) \<and> even (3::nat) then v4x4 ! 1 ! 0
              else if odd (2::nat) \<and> odd (3::nat) then v4x4 ! 1 ! 1
              else v4x4 ! 1 ! 2)" by blast
  then have a: "normAdjust4x4 dc' ! 1 ! 2 ! 3 = 14"
    by (simp add: v4x4_def)
  have "(5::nat) < 6" "(6::nat) < 8" "(2::nat) < 8" by simp_all
  with t8 have "normAdjust8x8 dc' ! 5 ! 6 ! 2 =
             (if (6::nat) mod 4 = 0 \<and> (2::nat) mod 4 = 0 then v8x8 ! 5 ! 0
              else if (6::nat) mod 2 = 1 \<and> (2::nat) mod 2 = 1 then v8x8 ! 5 ! 1
              else if (6::nat) mod 4 = 2 \<and> (2::nat) mod 4 = 2 then v8x8 ! 5 ! 2
              else if ((6::nat) mod 4 = 0 \<and> (2::nat) mod 2 = 1) \<or> ((6::nat) mod 2 = 1 \<and> (2::nat) mod 4 = 0) then v8x8 ! 5 ! 3
              else if ((6::nat) mod 4 = 0 \<and> (2::nat) mod 4 = 2) \<or> ((6::nat) mod 4 = 2 \<and> (2::nat) mod 4 = 0) then v8x8 ! 5 ! 4
              else v8x8 ! 5 ! 5)" by blast
  then have b: "normAdjust8x8 dc' ! 5 ! 6 ! 2 = 58"
    by (simp add: v8x8_def)
  from run a b show ?thesis by simp
qed

subsection \<open>\<^verbatim>\<open>init_bitstream_map\<close>\<close>

text \<open>
  C10.  \<^verbatim>\<open>init_bitstream_map(p, entries)\<close> returns FAILURE and leaves \<open>*p\<close> as it was
  when \<open>*p\<close> is non-null or \<open>entries\<close> is 0; when one of the six allocations fails it
  returns FAILURE with \<open>*p\<close> null; when all succeed it returns SUCCESS and \<open>*p\<close> is a map
  whose counters and codes are 0 and whose five per-sample arrays each hold \<open>entries\<close>
  zeroed slots.
\<close>

theorem init_bitstream_map_contract:
  "(p \<noteq> None \<or> entries = 0 \<longrightarrow> init_bitstream_map heap p entries = (FAILURE, p))
   \<and> (p = None \<and> entries \<noteq> 0
        \<and> \<not> (map_allocated heap \<and> sample_type_allocated heap \<and> sample_size_allocated heap
              \<and> sample_offset_allocated heap \<and> sample_pts_allocated heap
              \<and> sample_dts_allocated heap)
        \<longrightarrow> init_bitstream_map heap p entries = (FAILURE, None))
   \<and> (p = None \<and> entries \<noteq> 0
        \<and> map_allocated heap \<and> sample_type_allocated heap \<and> sample_size_allocated heap
        \<and> sample_offset_allocated heap \<and> sample_pts_allocated heap
        \<and> sample_dts_allocated heap
        \<longrightarrow> init_bitstream_map heap p entries =
              (SUCCESS,
               Some \<lparr>stream_type = 0, stream_codec = 0, sample_alignment = 0,
                     sample_count = 0, sample_count_idr = 0,
                     sample_type = replicate entries 0,
                     sample_size = replicate entries 0,
                     sample_offset = replicate entries 0,
                     sample_pts = replicate entries 0,
                     sample_dts = replicate entries 0\<rparr>))"
  unfolding init_bitstream_map_def by auto

theorem init_bitstream_map_witness:
  "init_bitstream_map all_allocated (Some map_4idr) 3 = (FAILURE, Some map_4idr)
   \<and> init_bitstream_map all_allocated None 0 = (FAILURE, None)
   \<and> init_bitstream_map no_dts_memory None 3 = (FAILURE, None)
   \<and> init_bitstream_map all_allocated None 2 =
        (SUCCESS,
         Some \<lparr>stream_type = 0, stream_codec = 0, sample_alignment = 0,
               sample_count = 0, sample_count_idr = 0,
               sample_type = [0, 0], sample_size = [0, 0], sample_offset = [0, 0],
               sample_pts = [0, 0], sample_dts = [0, 0]\<rparr>)"
proof -
  have a: "init_bitstream_map all_allocated (Some map_4idr) 3 = (FAILURE, Some map_4idr)"
    using init_bitstream_map_contract [of "Some map_4idr" 3 all_allocated] by simp
  have b: "init_bitstream_map all_allocated None 0 = (FAILURE, None)"
    using init_bitstream_map_contract [of None 0 all_allocated] by simp
  have c: "init_bitstream_map no_dts_memory None 3 = (FAILURE, None)"
    using init_bitstream_map_contract [of None 3 no_dts_memory]
    by (simp add: no_dts_memory_def all_allocated_def)
  have r: "replicate 2 (0::'a::zero) = [0, 0]"
    by (simp add: numeral_2_eq_2)
  have d: "init_bitstream_map all_allocated None 2 =
        (SUCCESS,
         Some \<lparr>stream_type = 0, stream_codec = 0, sample_alignment = 0,
               sample_count = 0, sample_count_idr = 0,
               sample_type = [0, 0], sample_size = [0, 0], sample_offset = [0, 0],
               sample_pts = [0, 0], sample_dts = [0, 0]\<rparr>)"
    using init_bitstream_map_contract [of None 2 all_allocated]
    by (simp add: all_allocated_def r)
  from a b c d show ?thesis by simp
qed

subsection \<open>\<^verbatim>\<open>checkDecodingContext\<close>\<close>

lemma and_then_Inr [simp]: "and_then (Inr v) f = f v"
  by (simp add: and_then_def)

lemma and_then_Inl [simp]: "and_then (Inl e) f = Inl e"
  by (simp add: and_then_def)

lemma deref_Some [simp]: "deref (Some v) = Inr v"
  by (simp add: deref_def)

lemma deref_None [simp]: "deref None = Inl NullDereference"
  by (simp add: deref_def)

lemma checkDecodingContext_flat:
  "checkDecodingContext dc =
     (if \<not> active_sps dc < length (sps_array dc) then Inl OutOfBounds
      else if \<not> active_pps dc < length (pps_array dc) then Inl OutOfBounds
      else case active_slice dc of
        None \<Rightarrow> Inr FAILURE
      | Some slc \<Rightarrow>
          if \<not> pic_parameter_set_id slc < length (pps_array dc) then Inl OutOfBounds
          else case pps_array dc ! pic_parameter_set_id slc of
            None \<Rightarrow> Inr FAILURE
          | Some pps \<Rightarrow>
              if \<not> seq_parameter_set_id pps < length (sps_array dc) then Inl OutOfBounds
              else if sps_array dc ! seq_parameter_set_id pps = None then Inr FAILURE
              else if bitstr dc = None \<or> active_nalu dc = None
                      \<or> sps_array dc ! active_sps dc = None
                      \<or> pps_array dc ! active_pps dc = None
                   then Inr FAILURE else Inr SUCCESS)"
  unfolding checkDecodingContext_def Let_def slot_def
  by (auto split: option.splits)

lemma checkDecodingContext_no_null_dereference:
  "checkDecodingContext dc \<noteq> Inl NullDereference"
  unfolding checkDecodingContext_flat
  by (simp split: option.splits)

lemma checkDecodingContext_success_iff:
  "checkDecodingContext dc = Inr SUCCESS \<longleftrightarrow>
     bitstr dc \<noteq> None \<and> active_nalu dc \<noteq> None
     \<and> present (sps_array dc) (active_sps dc)
     \<and> present (pps_array dc) (active_pps dc)
     \<and> (\<exists>slc pps. active_slice dc = Some slc
           \<and> present (pps_array dc) (pic_parameter_set_id slc)
           \<and> pps_array dc ! pic_parameter_set_id slc = Some pps
           \<and> present (sps_array dc) (seq_parameter_set_id pps))"
  unfolding checkDecodingContext_flat present_def
  by (auto simp: SUCCESS_def FAILURE_def split: option.splits)

lemma checkDecodingContext_in_range:
  "active_sps dc < length (sps_array dc) \<Longrightarrow> active_pps dc < length (pps_array dc) \<Longrightarrow>
   (\<And>slc. active_slice dc = Some slc \<Longrightarrow>
       pic_parameter_set_id slc < length (pps_array dc)) \<Longrightarrow>
   (\<And>pps. Some pps \<in> set (pps_array dc) \<Longrightarrow>
       seq_parameter_set_id pps < length (sps_array dc)) \<Longrightarrow>
   checkDecodingContext dc = Inr SUCCESS \<or> checkDecodingContext dc = Inr FAILURE"
  unfolding checkDecodingContext_flat
  by (auto split: option.splits) (metis nth_mem)+


lemma failed_slice_keeps_running:
  assumes "decoderRunning s" "header_ok e" "nal_unit_type e = NALU_TYPE_IDR" "\<not> handler_ok e"
    and "feed_retcode e \<noteq> FAILURE" "errorCounter s < 64" "idrCounter s \<noteq> picture_number"
  shows "decoderRunning (loop_check picture_number (loop_body s e))
         \<and> errorCounter (loop_check picture_number (loop_body s e)) = errorCounter s + 1
         \<and> idrCounter (loop_check picture_number (loop_body s e)) = idrCounter s"
  using assms
  by (simp add: loop_check_def loop_body_def dispatch_nalu_def Let_def
                NALU_TYPE_IDR_def NALU_TYPE_SLICE_def)

text \<open>
  C6.  \<^verbatim>\<open>checkDecodingContext\<close> returns SUCCESS exactly when the bit reader and the
  active NAL unit are non-null, the SPS and PPS slots in use are present, the active
  slice is non-null, the PPS slot the slice names is present and the SPS slot that PPS
  names is present.  It never dereferences a null pointer.  When every index it uses is
  inside its array it returns SUCCESS or FAILURE, so any failed check yields FAILURE.
  A failed check reaches the dispatch loop as a failed \<^verbatim>\<open>decode_slice\<close>; an iteration
  in which the slice decode fails only counts one more error: the loop goes on as long
  as the feed succeeded, fewer than 64 errors had been counted and the requested number
  of pictures is not reached.
\<close>

theorem checkDecodingContext_contract:
  "(checkDecodingContext dc = Inr SUCCESS \<longleftrightarrow>
      bitstr dc \<noteq> None \<and> active_nalu dc \<noteq> None
      \<and> present (sps_array dc) (active_sps dc)
      \<and> present (pps_array dc) (active_pps dc)
      \<and> (\<exists>slc pps. active_slice dc = Some slc
            \<and> present (pps_array dc) (pic_parameter_set_id slc)
            \<and> pps_array dc ! pic_parameter_set_id slc = Some pps
            \<and> present (sps_array dc) (seq_parameter_set_id pps)))
   \<and> checkDecodingContext dc \<noteq> Inl NullDereference
   \<and> (active_sps dc < length (sps_array dc) \<and> active_pps dc < length (pps_array dc)
        \<and> (\<forall>slc. active_slice dc = Some slc \<longrightarrow>
               pic_parameter_set_id slc < length (pps_array dc))
        \<and> (\<forall>pps. Some pps \<in> set (pps_array dc) \<longrightarrow>
               seq_parameter_set_id pps < length (sps_array dc))
        \<longrightarrow> checkDecodingContext dc = Inr SUCCESS \<or> checkDecodingContext dc = Inr FAILURE)
   \<and> (decoderRunning s \<and> header_ok e \<and> nal_unit_type e = NALU_TYPE_IDR \<and> \<not> handler_ok e
        \<and> feed_retcode e \<noteq> FAILURE \<and> errorCounter s < 64 \<and> idrCounter s \<noteq> picture_number
        \<longrightarrow> decoderRunning (loop_check picture_number (loop_body s e))
            \<and> errorCounter (loop_check picture_number (loop_body s e)) = errorCounter s + 1
            \<and> idrCounter (loop_check picture_number (loop_body s e)) = idrCounter s)"
proof (intro conjI impI)
  show "checkDecodingContext dc = Inr SUCCESS \<longleftrightarrow>
      bitstr dc \<noteq> None \<and> active_nalu dc \<noteq> None
      \<and> present (sps_array dc) (active_sps dc)
      \<and> present (pps_array dc) (active_pps dc)
      \<and> (\<exists>slc pps. active_slice dc = Some slc
            \<and> present (pps_array dc) (pic_parameter_set_id slc)
            \<and> pps_array dc ! pic_parameter_set_id slc = Some pps
            \<and> present (sps_array dc) (seq_parameter_set_id pps))"
    by (rule checkDecodingContext_success_iff)
  show "checkDecodingContext dc \<noteq> Inl NullDereference"
    by (rule checkDecodingContext_no_null_dereference)
next
  assume "active_sps dc < length (sps_array dc) \<and> active_pps dc < length (pps_array dc)
        \<and> (\<forall>slc. active_slice dc = Some slc \<longrightarrow>
               pic_parameter_set_id slc < length (pps_array dc))
        \<and> (\<forall>pps. Some pps \<in> set (pps_array dc) \<longrightarrow>
               seq_parameter_set_id pps < length (sps_array dc))"
  then show "checkDecodingContext dc = Inr SUCCESS \<or> checkDecodingContext dc = Inr FAILURE"
    by (intro checkDecodingContext_in_range) blast+
next
  assume a: "decoderRunning s \<and> header_ok e \<and> nal_unit_type e = NALU_TYPE_IDR \<and> \<not> handler_ok e
        \<and> feed_retcode e \<noteq> FAILURE \<and> errorCounter s < 64 \<and> idrCounter s \<noteq> picture_number"
  have r: "decoderRunning (loop_check picture_number (loop_body s e))
         \<and> errorCounter (loop_check picture_number (loop_body s e)) = errorCounter s + 1
         \<and> idrCounter (loop_check picture_number (loop_body s e)) = idrCounter s"
    using a by (intro failed_slice_keeps_running) blast+
  from r show "decoderRunning (loop_check picture_number (loop_body s e))" by blast
  from r show "errorCounter (loop_check picture_number (loop_body s e)) = errorCounter s + 1" by blast
  from r show "idrCounter (loop_check picture_number (loop_body s e)) = idrCounter s" by blast
qed

theorem checkDecodingContext_witness:
  "checkDecodingContext example_dc = Inr SUCCESS
   \<and> checkDecodingContext dangling_pps_dc = Inr FAILURE
   \<and> decoderRunning (loop_check 3 (loop_body initial_state failed_idr_event))
   \<and> errorCounter (loop_check 3 (loop_body initial_state failed_idr_event)) = 1"
proof -
  have a: "checkDecodingContext example_dc = Inr SUCCESS"
    using checkDecodingContext_contract [of example_dc initial_state failed_idr_event 3]
    by (simp add: example_dc_def present_def)
  have "checkDecodingContext dangling_pps_dc \<noteq> Inr SUCCESS"
    using checkDecodingContext_contract [of dangling_pps_dc initial_state failed_idr_event 3]
    by (simp add: dangling_pps_dc_def example_dc_def present_def)
  moreover have "checkDecodingContext dangling_pps_dc = Inr SUCCESS
                 \<or> checkDecodingContext dangling_pps_dc = Inr FAILURE"
    using checkDecodingContext_contract [of dangling_pps_dc initial_state failed_idr_event 3]
    by (auto simp: dangling_pps_dc_def example_dc_def)
  ultimately have b: "checkDecodingContext dangling_pps_dc = Inr FAILURE"
    by blast
  have c: "decoderRunning (loop_check 3 (loop_body initial_state failed_idr_event))
           \<and> errorCounter (loop_check 3 (loop_body initial_state failed_idr_event)) = 1"
    using checkDecodingContext_contract [of example_dc initial_state failed_idr_event 3]
    by (simp add: initial_state_def failed_idr_event_def SUCCESS_def FAILURE_def)
  from a b c show ?thesis by simp
qed

subsection \<open>The dispatch loop\<close>

lemma SUCCESS_neq_FAILURE [simp]: "SUCCESS \<noteq> FAILURE" "FAILURE \<noteq> SUCCESS"
  by (simp_all add: SUCCESS_def FAILURE_def)

lemma loop_body_running [simp]: "decoderRunning (loop_body s e) = decoderRunning s"
  by (simp add: loop_body_def dispatch_nalu_def Let_def)


lemma loop_check_counters [simp]:
  "idrCounter (loop_check picture_number s) = idrCounter s"
  "errorCounter (loop_check picture_number s) = errorCounter s"
  by (simp_all add: loop_check_def Let_def)






















subsection \<open>The first cut\<close>

lemma first_cut_records:
  "t + length (filter (\<lambda>j. word_of_int threshold < sample_size m ! nat (j + spspps)) [i..hi - 1])
     \<le> length ids \<Longrightarrow>
   first_cut m spspps threshold hi i (ids, t) =
     Inr (take t ids
            @ map (\<lambda>j. j + spspps)
                (filter (\<lambda>j. word_of_int threshold < sample_size m ! nat (j + spspps)) [i..hi - 1])
            @ drop (t + length (filter (\<lambda>j. word_of_int threshold < sample_size m ! nat (j + spspps))
                                  [i..hi - 1])) ids,
          t + length (filter (\<lambda>j. word_of_int threshold < sample_size m ! nat (j + spspps))
                        [i..hi - 1]))"
proof (induction "nat (hi - i)" arbitrary: i ids t)
  case 0
  then have "\<not> i < hi" by simp
  then show ?case
    by (subst first_cut.simps) simp
next
  case (Suc n)
  then have lt: "i < hi" by simp
  then have range: "[i..hi - 1] = i # [i + 1..hi - 1]"
    by (simp add: upto_rec1)
  from Suc.hyps(2) have n: "n = nat (hi - (i + 1))" by simp
  let ?P = "\<lambda>j. word_of_int threshold < sample_size m ! nat (j + spspps)"
  show ?case
  proof (cases "?P i")
    case False
    with Suc.prems range have le: "t + length (filter ?P [i + 1..hi - 1]) \<le> length ids"
      by simp
    have "first_cut m spspps threshold hi i (ids, t) =
            first_cut m spspps threshold hi (i + 1) (ids, t)"
      using lt False by (subst first_cut.simps) simp
    with Suc.hyps(1) [OF n le] False range show ?thesis
      by simp
  next
    case True
    with Suc.prems range have le: "Suc t + length (filter ?P [i + 1..hi - 1]) \<le> length ids"
      by simp
    then have tl: "t < length ids" by simp
    then have le': "Suc t + length (filter ?P [i + 1..hi - 1]) \<le> length (ids[t := i + spspps])"
      using le by simp
    have "first_cut m spspps threshold hi i (ids, t) =
            first_cut m spspps threshold hi (i + 1) (ids[t := i + spspps], Suc t)"
      using lt True tl by (subst first_cut.simps) simp
    moreover have "take (Suc t) (ids[t := i + spspps]) = take t ids @ [i + spspps]"
      using tl by (simp add: take_Suc_conv_app_nth)
    moreover have "drop (Suc t + k) (ids[t := i + spspps]) = drop (Suc t + k) ids" for k
      by simp
    ultimately show ?thesis
      using Suc.hyps(1) [OF n le'] True range by simp
  qed
qed

lemma first_cut_overflow:
  "t \<le> length ids \<Longrightarrow>
   length ids
     < t + length (filter (\<lambda>j. word_of_int threshold < sample_size m ! nat (j + spspps)) [i..hi - 1])
   \<Longrightarrow> first_cut m spspps threshold hi i (ids, t) = Inl OutOfBounds"
proof (induction "nat (hi - i)" arbitrary: i ids t)
  case 0
  then have "[i..hi - 1] = []" by simp
  with "0.prems" show ?case by simp
next
  case (Suc n)
  then have lt: "i < hi" by simp
  then have range: "[i..hi - 1] = i # [i + 1..hi - 1]"
    by (simp add: upto_rec1)
  from Suc.hyps(2) have n: "n = nat (hi - (i + 1))" by simp
  let ?P = "\<lambda>j. word_of_int threshold < sample_size m ! nat (j + spspps)"
  show ?case
  proof (cases "?P i")
    case False
    with Suc.prems range have gt: "length ids < t + length (filter ?P [i + 1..hi - 1])"
      by simp
    have "first_cut m spspps threshold hi i (ids, t) =
            first_cut m spspps threshold hi (i + 1) (ids, t)"
      using lt False by (subst first_cut.simps) simp
    with Suc.hyps(1) [OF n Suc.prems(1) gt] show ?thesis
      by simp
  next
    case True
    show ?thesis
    proof (cases "t < length ids")
      case False
      then show ?thesis
        using lt True by (subst first_cut.simps) simp
    next
      case tl: True
      have step: "first_cut m spspps threshold hi i (ids, t) =
            first_cut m spspps threshold hi (i + 1) (ids[t := i + spspps], Suc t)"
        using lt True tl by (subst first_cut.simps) simp
      have a: "Suc t \<le> length (ids[t := i + spspps])"
        using tl by simp
      have b: "length (ids[t := i + spspps]) < Suc t + length (filter ?P [i + 1..hi - 1])"
        using Suc.prems(2) True range by simp
      from Suc.hyps(1) [OF n a b] step show ?thesis
        by simp
    qed
  qed
qed


lemma pow2_pos: "0 < pow2 e"
  by (simp add: pow2_def)

lemma round_half_even_nonneg: "0 \<le> r \<Longrightarrow> 0 \<le> round_half_even r"
  by (simp add: round_half_even_def Let_def)

lemma double_round_nonneg: "0 \<le> x \<Longrightarrow> 0 \<le> double_round x"
proof (cases "x = 0")
  case True
  then show ?thesis by (simp add: double_round_def)
next
  case False
  assume "0 \<le> x"
  with False have pos: "0 < x" by simp
  obtain p q where pq: "quotient_of \<bar>x\<bar> = (p, q)"
    by (cases "quotient_of \<bar>x\<bar>")
  define e where "e = (if pow2 (floorlog2 p - floorlog2 q) \<le> \<bar>x\<bar>
                       then floorlog2 p - floorlog2 q else floorlog2 p - floorlog2 q - 1)"
  have "0 \<le> \<bar>x\<bar> / pow2 (e - 52)"
    using pow2_pos [of "e - 52"] by simp
  then have "0 \<le> round_half_even (\<bar>x\<bar> / pow2 (e - 52))"
    by (rule round_half_even_nonneg)
  then have "0 \<le> sgn x * of_int (round_half_even (\<bar>x\<bar> / pow2 (e - 52))) * pow2 (e - 52)"
    using pos pow2_pos [of "e - 52"] by simp
  then show ?thesis
    using False pq by (simp add: double_round_def Let_def e_def)
qed

lemma frame_borders_nonneg: "0 \<le> frame_borders n"
proof -
  have "0 \<le> double_round (3 / 100)"
    by (rule double_round_nonneg) simp
  then have "0 \<le> of_nat n * double_round (3 / 100)"
    by simp
  then have "0 \<le> double_round (of_nat n * double_round (3 / 100))"
    by (rule double_round_nonneg)
  then show ?thesis
    by (simp add: frame_borders_def double_mul_def c_ceil_def)
qed

lemma length_survivors: "int (length (survivors m)) \<le> int (sample_count_idr m)"
proof -
  let ?b = "frame_borders (sample_count_idr m)"
  have "length (survivors m) \<le> length [?b..int (sample_count_idr m) - ?b - 1]"
    unfolding survivors_def by (rule length_filter_le)
  also have "int \<dots> \<le> int (sample_count_idr m)"
    using frame_borders_nonneg [of "sample_count_idr m"] by simp
  finally show ?thesis by simp
qed

lemma set_survivors: "i \<in> set (survivors m) \<longleftrightarrow> survives m i"
  by (auto simp: survivors_def survives_def)

lemma survivors_ordered: "sorted (survivors m) \<and> distinct (survivors m)"
  by (simp add: survivors_def sorted_filter [where f = id, simplified])


lemma clamped_min:
  "0 < sample_count_idr m \<Longrightarrow> clamped m n = min n (int (length (survivors m)))"
  using length_survivors [of m] by (auto simp: clamped_def Let_def min_def)

lemma frame_jump_exact: "c_trunc (of_int (c_ceil (of_int q))) = q"
  by (simp add: c_trunc_def c_ceil_def)

lemma first_cut_of_map:
  assumes "length (survivors m) \<le> 999"
  shows "first_cut m (spspps_of m) (threshold_of m)
           (int (sample_count_idr m) - frame_borders (sample_count_idr m))
           (frame_borders (sample_count_idr m)) (replicate 999 0, 0)
         = Inr (recorded m, length (survivors m))"
proof -
  have "first_cut m (spspps_of m) (threshold_of m)
           (int (sample_count_idr m) - frame_borders (sample_count_idr m))
           (frame_borders (sample_count_idr m)) (replicate 999 0, 0)
        = Inr (take 0 (replicate 999 0)
                 @ map (\<lambda>j. j + spspps_of m) (survivors m)
                 @ drop (0 + length (survivors m)) (replicate 999 0),
               0 + length (survivors m))"
    unfolding survivors_def
    by (rule first_cut_records) (use assms in \<open>simp add: survivors_def\<close>)
  then show ?thesis
    by (simp add: recorded_def)
qed

lemma first_cut_of_map_overflow:
  assumes "999 < length (survivors m)"
  shows "first_cut m (spspps_of m) (threshold_of m)
           (int (sample_count_idr m) - frame_borders (sample_count_idr m))
           (frame_borders (sample_count_idr m)) (replicate 999 0, 0)
         = Inl OutOfBounds"
  by (rule first_cut_overflow) (use assms in \<open>simp_all add: survivors_def\<close>)

lemma idr_filtering_overflow:
  assumes "mode \<noteq> PICTURE_UNFILTERED" "999 < length (survivors m)"
  shows "idr_filtering heap (Some (Some m)) n mode = Inl OutOfBounds"
  using assms(1) first_cut_of_map_overflow [OF assms(2)]
  by (simp add: idr_filtering_def Let_def spspps_of_def threshold_of_def)

lemma idr_filtering_division_by_zero:
  assumes "mode \<noteq> PICTURE_UNFILTERED" "length (survivors m) \<le> 999" "clamped m n = 1"
  shows "idr_filtering heap (Some (Some m)) n mode = Inl DivisionByZero"
  using assms(1,3) first_cut_of_map [OF assms(2)]
  by (simp add: idr_filtering_def after_first_cut_def clamped_def Let_def spspps_of_def
                threshold_of_def)

lemma init_bitstream_map_fresh:
  assumes "map_allocated heap" "sample_type_allocated heap" "sample_size_allocated heap"
    "sample_offset_allocated heap" "sample_pts_allocated heap" "sample_dts_allocated heap"
    "entries \<noteq> 0"
  shows "init_bitstream_map heap None entries = (SUCCESS, Some (fresh_map entries))"
  using assms by (simp add: init_bitstream_map_def fresh_map_def)

lemma idr_filtering_writes:
  assumes mode: "mode \<noteq> PICTURE_UNFILTERED"
    and fit: "length (survivors m) \<le> 999"
    and p: "clamped m n \<noteq> 1"
    and heap: "map_allocated heap" "sample_type_allocated heap" "sample_size_allocated heap"
      "sample_offset_allocated heap" "sample_pts_allocated heap" "sample_dts_allocated heap"
    and entries: "0 < spspps_of m + int (length (survivors m))"
  shows "idr_filtering heap (Some (Some m)) n mode =
           and_then
             (write_filtered mode m (spspps_of m) (recorded m) (length (survivors m))
                (clamped m n) (c_div (int (length (survivors m))) (clamped m n - 1))
                (fresh_map (nat (spspps_of m + int (length (survivors m))))))
             (\<lambda>mf. Inr (clamped m n, \<lparr>caller_handle = None, map_filtered = Some mf\<rparr>))"
proof -
  have init: "init_bitstream_map heap None (nat (spspps_of m + int (length (survivors m)))) =
          (SUCCESS, Some (fresh_map (nat (spspps_of m + int (length (survivors m))))))"
    using heap entries by (intro init_bitstream_map_fresh) simp_all
  show ?thesis
    using mode p first_cut_of_map [OF fit] init
    by (simp add: idr_filtering_def after_first_cut_def clamped_def Let_def spspps_of_def
                  threshold_of_def frame_jump_exact store_def load_def erase_and_replace_def
                  free_bitstream_map_def SUCCESS_def)
qed


subsection \<open>The writes to the filtered map\<close>

lemma splice_update:
  assumes "n < length a" "n < length b"
  shows "(take n a @ drop n b)[n := a ! n] = take (Suc n) a @ drop (Suc n) b"
proof -
  have d: "drop n b = b ! n # drop (Suc n) b"
    using assms by (simp add: Cons_nth_drop_Suc)
  have "(take n a @ drop n b)[n := a ! n] = take n a @ (drop n b)[0 := a ! n]"
    using assms by (simp add: list_update_append)
  also have "\<dots> = take n a @ (a ! n # drop (Suc n) b)"
    by (subst d) simp
  also have "\<dots> = take (Suc n) a @ drop (Suc n) b"
    using assms by (simp add: take_Suc_conv_app_nth)
  finally show ?thesis .
qed

lemma fold_copy_sample:
  assumes "n \<le> length (sample_type m)" "n \<le> length (sample_pts m)"
    "n \<le> length (sample_offset m)" "n \<le> length (sample_size m)"
    "n \<le> length (sample_type mf)" "n \<le> length (sample_pts mf)"
    "n \<le> length (sample_offset mf)" "n \<le> length (sample_size mf)"
  shows "fold (\<lambda>i. copy_sample m i i) [0..<n] mf =
           mf\<lparr>sample_type := take n (sample_type m) @ drop n (sample_type mf),
              sample_pts := take n (sample_pts m) @ drop n (sample_pts mf),
              sample_offset := take n (sample_offset m) @ drop n (sample_offset mf),
              sample_size := take n (sample_size m) @ drop n (sample_size mf)\<rparr>"
  using assms
proof (induction n)
  case 0
  show ?case by simp
next
  case (Suc n)
  then have IH: "fold (\<lambda>i. copy_sample m i i) [0..<n] mf =
           mf\<lparr>sample_type := take n (sample_type m) @ drop n (sample_type mf),
              sample_pts := take n (sample_pts m) @ drop n (sample_pts mf),
              sample_offset := take n (sample_offset m) @ drop n (sample_offset mf),
              sample_size := take n (sample_size m) @ drop n (sample_size mf)\<rparr>"
    by simp
  have u1: "(take n (sample_type m) @ drop n (sample_type mf))[n := sample_type m ! n] =
                 take (Suc n) (sample_type m) @ drop (Suc n) (sample_type mf)"
    using Suc.prems by (intro splice_update) simp_all
  have u2: "(take n (sample_pts m) @ drop n (sample_pts mf))[n := sample_pts m ! n] =
                 take (Suc n) (sample_pts m) @ drop (Suc n) (sample_pts mf)"
    using Suc.prems by (intro splice_update) simp_all
  have u3: "(take n (sample_offset m) @ drop n (sample_offset mf))[n := sample_offset m ! n] =
                 take (Suc n) (sample_offset m) @ drop (Suc n) (sample_offset mf)"
    using Suc.prems by (intro splice_update) simp_all
  have u4: "(take n (sample_size m) @ drop n (sample_size mf))[n := sample_size m ! n] =
                 take (Suc n) (sample_size m) @ drop (Suc n) (sample_size mf)"
    using Suc.prems by (intro splice_update) simp_all
  have "fold (\<lambda>i. copy_sample m i i) [0..<Suc n] mf =
          copy_sample m n n (fold (\<lambda>i. copy_sample m i i) [0..<n] mf)"
    by simp
  also have "\<dots> = copy_sample m n n
           (mf\<lparr>sample_type := take n (sample_type m) @ drop n (sample_type mf),
              sample_pts := take n (sample_pts m) @ drop n (sample_pts mf),
              sample_offset := take n (sample_offset m) @ drop n (sample_offset mf),
              sample_size := take n (sample_size m) @ drop n (sample_size mf)\<rparr>)"
    by (simp only: IH)
  also have "\<dots> =
           mf\<lparr>sample_type := take (Suc n) (sample_type m) @ drop (Suc n) (sample_type mf),
              sample_pts := take (Suc n) (sample_pts m) @ drop (Suc n) (sample_pts mf),
              sample_offset := take (Suc n) (sample_offset m) @ drop (Suc n) (sample_offset mf),
              sample_size := take (Suc n) (sample_size m) @ drop (Suc n) (sample_size mf)\<rparr>"
    unfolding copy_sample_def using u1 u2 u3 u4 by simp
  finally show ?case .
qed

lemma temporary_read_Inr:
  "temporary_read ids k = Inr v \<longleftrightarrow> 0 \<le> k \<and> k < int (length ids) \<and> v = ids ! nat k"
  by (auto simp: temporary_read_def)

lemma second_cut_defined:
  assumes "mode = PICTURE_ORDERED \<longrightarrow> (\<forall>i\<in>set idx. int i < int (length ids))"
    and "mode = PICTURE_DISTRIBUTED \<longrightarrow>
           (\<forall>i\<in>set idx. 0 \<le> int i * frame_jump \<and> int i * frame_jump < int (length ids))"
  shows "\<exists>mf'. second_cut mode m spspps ids frame_jump idx mf = Inr mf'"
  using assms
proof (induction idx arbitrary: mf)
  case Nil
  show ?case by simp
next
  case (Cons i idx)
  show ?case
  proof (cases mode)
    case PICTURE_UNFILTERED
    with Cons show ?thesis by simp
  next
    case PICTURE_ORDERED
    with Cons.prems have "temporary_read ids (int i) = Inr (ids ! i)"
      by (simp add: temporary_read_def)
    with Cons PICTURE_ORDERED show ?thesis by simp
  next
    case PICTURE_DISTRIBUTED
    with Cons.prems have "temporary_read ids (int i * frame_jump) = Inr (ids ! nat (int i * frame_jump))"
      by (simp add: temporary_read_def)
    with Cons PICTURE_DISTRIBUTED show ?thesis by simp
  qed
qed

lemma copy_sample_keeps:
  "sample_count (copy_sample m src dst mf) = sample_count mf"
  "sample_count_idr (copy_sample m src dst mf) = sample_count_idr mf"
  "sample_dts (copy_sample m src dst mf) = sample_dts mf"
  "k \<noteq> dst \<Longrightarrow> sample_type (copy_sample m src dst mf) ! k = sample_type mf ! k"
  "k \<noteq> dst \<Longrightarrow> sample_size (copy_sample m src dst mf) ! k = sample_size mf ! k"
  "k \<noteq> dst \<Longrightarrow> sample_offset (copy_sample m src dst mf) ! k = sample_offset mf ! k"
  "k \<noteq> dst \<Longrightarrow> sample_pts (copy_sample m src dst mf) ! k = sample_pts mf ! k"
  by (simp_all add: copy_sample_def)

lemma second_cut_keeps:
  assumes "second_cut mode m spspps ids frame_jump idx mf = Inr mf'"
  shows "sample_count mf' = sample_count mf \<and> sample_count_idr mf' = sample_count_idr mf
         \<and> sample_dts mf' = sample_dts mf
         \<and> (\<forall>k<nat spspps. sample_type mf' ! k = sample_type mf ! k
                \<and> sample_size mf' ! k = sample_size mf ! k
                \<and> sample_offset mf' ! k = sample_offset mf ! k
                \<and> sample_pts mf' ! k = sample_pts mf ! k)"
  using assms
proof (induction idx arbitrary: mf)
  case Nil
  then show ?case by simp
next
  case (Cons i idx)
  have apart: "k \<noteq> nat (spspps + int i)" if "k < nat spspps" for k
    using that by linarith
  show ?case
  proof (cases mode)
    case PICTURE_UNFILTERED
    with Cons show ?thesis by simp
  next
    case PICTURE_ORDERED
    with Cons.prems obtain src where
      "second_cut mode m spspps ids frame_jump idx
         (copy_sample m (nat src) (nat (spspps + int i)) mf) = Inr mf'"
      by (auto simp: and_then_def split: sum.splits)
    from Cons.IH [OF this] apart show ?thesis
      by (simp add: copy_sample_keeps)
  next
    case PICTURE_DISTRIBUTED
    with Cons.prems obtain src where
      "second_cut mode m spspps ids frame_jump idx
         (copy_sample m (nat src) (nat (spspps + int i)) mf) = Inr mf'"
      by (auto simp: and_then_def split: sum.splits)
    from Cons.IH [OF this] apart show ?thesis
      by (simp add: copy_sample_keeps)
  qed
qed

subsection \<open>The filter on concrete maps\<close>

lemma threshold_100: "c_trunc (double_div 100 (double_round (83 / 50))) = 60"
  by code_simp

lemma quotient_100: "double_div 400 4 = 100" "double_div 500 5 = 100" "double_div 110000 1100 = 100"
  by code_simp+

lemma borders_4: "c_ceil (double_mul 4 (double_round (3 / 100))) = 1"
  by code_simp

lemma borders_5: "c_ceil (double_mul 5 (double_round (3 / 100))) = 1"
  by code_simp

lemma borders_1100: "c_ceil (double_mul 1100 (double_round (3 / 100))) = 33"
  by code_simp

lemma map_4idr_payload: "payload_sum map_4idr 1 = 400"
  by code_simp

lemma map_4idr_quantities:
  "spspps_of map_4idr = 1" "threshold_of map_4idr = 60" "frame_borders (sample_count_idr map_4idr) = 1"
proof -
  show s: "spspps_of map_4idr = 1"
    by (simp add: spspps_of_def map_4idr_def)
  have "threshold_of map_4idr = frame_sizethreshold 400 4"
    unfolding threshold_of_def s map_4idr_payload by (simp add: map_4idr_def)
  also have "\<dots> = 60"
    by (simp add: frame_sizethreshold_def quotient_100 threshold_100)
  finally show "threshold_of map_4idr = 60" .
  show "frame_borders (sample_count_idr map_4idr) = 1"
    by (simp add: frame_borders_def map_4idr_def borders_4)
qed

lemma map_4idr_survivors: "survivors map_4idr = [1, 2]"
  unfolding survivors_def map_4idr_quantities
  by (simp add: map_4idr_def upto_rec1)

lemma map_4idr_recorded: "recorded map_4idr = [2, 3] @ replicate 997 0"
  by (simp add: recorded_def map_4idr_survivors map_4idr_quantities)

lemma map_4idr_clamped: "clamped map_4idr 2 = 2" "clamped map_4idr 1 = 1"
  unfolding clamped_def map_4idr_survivors by (simp_all add: map_4idr_def)

lemma upt_0_2: "[0..<2] = [0, 1]"
  by (simp add: numeral_2_eq_2)

lemma fresh_map_3:
  "fresh_map 3 =
     \<lparr>stream_type = 0, stream_codec = 0, sample_alignment = 0,
      sample_count = 0, sample_count_idr = 0,
      sample_type = [0, 0, 0], sample_size = [0, 0, 0], sample_offset = [0, 0, 0],
      sample_pts = [0, 0, 0], sample_dts = [0, 0, 0]\<rparr>"
  by (simp add: fresh_map_def numeral_3_eq_3)

lemma map_4idr_ordered:
  "idr_filtering all_allocated (Some (Some map_4idr)) 2 PICTURE_ORDERED =
     Inr (2, \<lparr>caller_handle = None,
              map_filtered =
                Some \<lparr>stream_type = 0, stream_codec = 0, sample_alignment = 0,
                      sample_count = 3, sample_count_idr = 2,
                      sample_type = [7, 5, 5], sample_size = [20, 100, 100],
                      sample_offset = [10, 130, 230], sample_pts = [0, 2, 3],
                      sample_dts = [0, 0, 0]\<rparr>\<rparr>)"
proof -
  have w: "write_filtered PICTURE_ORDERED map_4idr (spspps_of map_4idr) (recorded map_4idr)
                (length (survivors map_4idr)) (clamped map_4idr 2)
                (c_div (int (length (survivors map_4idr))) (clamped map_4idr 2 - 1))
                (fresh_map (nat (spspps_of map_4idr + int (length (survivors map_4idr))))) =
           Inr \<lparr>stream_type = 0, stream_codec = 0, sample_alignment = 0,
                      sample_count = 3, sample_count_idr = 2,
                      sample_type = [7, 5, 5], sample_size = [20, 100, 100],
                      sample_offset = [10, 130, 230], sample_pts = [0, 2, 3],
                      sample_dts = [0, 0, 0]\<rparr>"
    unfolding map_4idr_recorded map_4idr_survivors map_4idr_clamped map_4idr_quantities
    by (simp add: write_filtered_def fresh_map_3 Let_def copy_sample_def temporary_read_def
                  map_4idr_def upt_0_2)
  have "idr_filtering all_allocated (Some (Some map_4idr)) 2 PICTURE_ORDERED =
           and_then
             (write_filtered PICTURE_ORDERED map_4idr (spspps_of map_4idr) (recorded map_4idr)
                (length (survivors map_4idr)) (clamped map_4idr 2)
                (c_div (int (length (survivors map_4idr))) (clamped map_4idr 2 - 1))
                (fresh_map (nat (spspps_of map_4idr + int (length (survivors map_4idr))))))
             (\<lambda>mf. Inr (clamped map_4idr 2, \<lparr>caller_handle = None, map_filtered = Some mf\<rparr>))"
    by (rule idr_filtering_writes)
       (simp_all add: map_4idr_survivors map_4idr_clamped map_4idr_quantities all_allocated_def)
  then show ?thesis
    unfolding w by (simp add: map_4idr_clamped)
qed

subsection \<open>The filter as a whole\<close>

lemma idr_filtering_no_map:
  assumes mode: "mode \<noteq> PICTURE_UNFILTERED"
    and fit: "length (survivors m) \<le> 999"
    and p: "clamped m n \<noteq> 1"
    and fails: "\<not> (map_allocated heap \<and> sample_type_allocated heap \<and> sample_size_allocated heap
                  \<and> sample_offset_allocated heap \<and> sample_pts_allocated heap
                  \<and> sample_dts_allocated heap
                  \<and> 0 < spspps_of m + int (length (survivors m)))"
  shows "idr_filtering heap (Some (Some m)) n mode =
           Inr (FAILURE, \<lparr>caller_handle = Some m, map_filtered = None\<rparr>)"
proof -
  have init: "init_bitstream_map heap None (nat (spspps_of m + int (length (survivors m)))) =
          (FAILURE, None)"
    using fails by (auto simp: init_bitstream_map_def)
  show ?thesis
    using mode p first_cut_of_map [OF fit] init
    by (simp add: idr_filtering_def after_first_cut_def clamped_def Let_def spspps_of_def
                  threshold_of_def store_def FAILURE_def)
qed

lemma idr_filtering_built:
  assumes mode: "mode \<noteq> PICTURE_UNFILTERED"
    and res: "idr_filtering heap (Some (Some m)) n mode = Inr (r, hs)"
    and built: "map_filtered hs \<noteq> None \<or> 0 < r"
  shows "length (survivors m) \<le> 999 \<and> clamped m n \<noteq> 1 \<and> r = clamped m n
         \<and> (\<exists>mf. hs = \<lparr>caller_handle = None, map_filtered = Some mf\<rparr>
                \<and> write_filtered mode m (spspps_of m) (recorded m) (length (survivors m))
                     (clamped m n) (c_div (int (length (survivors m))) (clamped m n - 1))
                     (fresh_map (nat (spspps_of m + int (length (survivors m))))) = Inr mf)"
proof -
  have fit: "length (survivors m) \<le> 999"
  proof (rule ccontr)
    assume "\<not> length (survivors m) \<le> 999"
    then have "idr_filtering heap (Some (Some m)) n mode = Inl OutOfBounds"
      using mode by (intro idr_filtering_overflow) simp_all
    with res show False by simp
  qed
  have p: "clamped m n \<noteq> 1"
  proof
    assume "clamped m n = 1"
    with mode fit have "idr_filtering heap (Some (Some m)) n mode = Inl DivisionByZero"
      by (rule idr_filtering_division_by_zero)
    with res show False by simp
  qed
  have ok: "map_allocated heap \<and> sample_type_allocated heap \<and> sample_size_allocated heap
                  \<and> sample_offset_allocated heap \<and> sample_pts_allocated heap
                  \<and> sample_dts_allocated heap
                  \<and> 0 < spspps_of m + int (length (survivors m))"
  proof (rule ccontr)
    assume "\<not> ?thesis"
    with mode fit p have "idr_filtering heap (Some (Some m)) n mode =
           Inr (FAILURE, \<lparr>caller_handle = Some m, map_filtered = None\<rparr>)"
      by (rule idr_filtering_no_map)
    with res built show False by (auto simp: FAILURE_def)
  qed
  have "idr_filtering heap (Some (Some m)) n mode =
           and_then
             (write_filtered mode m (spspps_of m) (recorded m) (length (survivors m))
                (clamped m n) (c_div (int (length (survivors m))) (clamped m n - 1))
                (fresh_map (nat (spspps_of m + int (length (survivors m))))))
             (\<lambda>mf. Inr (clamped m n, \<lparr>caller_handle = None, map_filtered = Some mf\<rparr>))"
    using mode fit p ok by (intro idr_filtering_writes) simp_all
  with res obtain mf where
    "write_filtered mode m (spspps_of m) (recorded m) (length (survivors m))
                (clamped m n) (c_div (int (length (survivors m))) (clamped m n - 1))
                (fresh_map (nat (spspps_of m + int (length (survivors m))))) = Inr mf"
    "r = clamped m n" "hs = \<lparr>caller_handle = None, map_filtered = Some mf\<rparr>"
    by (auto simp: and_then_def split: sum.splits)
  with fit p show ?thesis by blast
qed

lemma write_filtered_result:
  assumes w: "write_filtered mode m spspps ids cnt p frame_jump
                (fresh_map (nat (spspps + int cnt))) = Inr mf"
    and len: "nat spspps \<le> length (sample_type m)" "nat spspps \<le> length (sample_pts m)"
      "nat spspps \<le> length (sample_offset m)" "nat spspps \<le> length (sample_size m)"
  shows "sample_count mf = nat (spspps + int cnt) \<and> sample_count_idr mf = cnt
         \<and> sample_dts mf = replicate (nat (spspps + int cnt)) 0
         \<and> (\<forall>k<nat spspps. sample_type mf ! k = sample_type m ! k
                \<and> sample_size mf ! k = sample_size m ! k
                \<and> sample_offset mf ! k = sample_offset m ! k
                \<and> sample_pts mf ! k = sample_pts m ! k)"
proof -
  define mf0 where "mf0 = (fresh_map (nat (spspps + int cnt)))
      \<lparr>sample_count := nat (spspps + int cnt), sample_count_idr := cnt\<rparr>"
  define mf1 where "mf1 = fold (\<lambda>i. copy_sample m i i) [0..<nat spspps] mf0"
  have w': "second_cut mode m spspps ids frame_jump [0..<nat p] mf1 = Inr mf"
    using w by (simp add: write_filtered_def Let_def mf0_def mf1_def)
  have room: "nat spspps \<le> nat (spspps + int cnt)"
    by simp
  have mf1: "mf1 = mf0\<lparr>sample_type := take (nat spspps) (sample_type m) @ drop (nat spspps) (sample_type mf0),
              sample_pts := take (nat spspps) (sample_pts m) @ drop (nat spspps) (sample_pts mf0),
              sample_offset := take (nat spspps) (sample_offset m) @ drop (nat spspps) (sample_offset mf0),
              sample_size := take (nat spspps) (sample_size m) @ drop (nat spspps) (sample_size mf0)\<rparr>"
    unfolding mf1_def using len room
    by (intro fold_copy_sample) (simp_all add: mf0_def fresh_map_def)
  have below: "sample_type mf1 ! k = sample_type m ! k \<and> sample_size mf1 ! k = sample_size m ! k
         \<and> sample_offset mf1 ! k = sample_offset m ! k \<and> sample_pts mf1 ! k = sample_pts m ! k"
    if "k < nat spspps" for k
    using that len by (simp add: mf1 nth_append)
  have rest: "sample_count mf1 = nat (spspps + int cnt)" "sample_count_idr mf1 = cnt"
    "sample_dts mf1 = replicate (nat (spspps + int cnt)) 0"
    by (simp_all add: mf1 mf0_def fresh_map_def)
  from second_cut_keeps [OF w'] below rest show ?thesis
    by simp
qed


lemma length_recorded: "length (survivors m) \<le> 999 \<Longrightarrow> length (recorded m) = 999"
  by (simp add: recorded_def)

lemma c_div_nonneg: "0 \<le> a \<Longrightarrow> 0 < b \<Longrightarrow> c_div a b = a div b"
  by (cases "a = 0") (simp_all add: c_div_def)

lemma valid_map_lengths:
  assumes "valid_map m"
  shows "nat (spspps_of m) \<le> length (sample_type m)" "nat (spspps_of m) \<le> length (sample_pts m)"
    "nat (spspps_of m) \<le> length (sample_offset m)" "nat (spspps_of m) \<le> length (sample_size m)"
  using assms unfolding valid_map_def spspps_of_def by linarith+

text \<open>
  C8 (as amended).  In modes ORDERED and DISTRIBUTED, whenever the filter builds a
  filtered map from a valid map, every entry \<open>i < spspps\<close> of the filtered map equals
  entry \<open>i\<close> of the original map in \<^verbatim>\<open>sample_type\<close>, \<^verbatim>\<open>sample_offset\<close>,
  \<^verbatim>\<open>sample_size\<close> and \<^verbatim>\<open>sample_pts\<close>.
\<close>

theorem idr_filtering_keeps_parameter_sets:
  assumes valid: "valid_map m"
    and mode: "mode = PICTURE_ORDERED \<or> mode = PICTURE_DISTRIBUTED"
    and res: "idr_filtering heap (Some (Some m)) n mode = Inr (r, hs)"
    and mf: "map_filtered hs = Some mf"
    and i: "int i < spspps_of m"
  shows "sample_type mf ! i = sample_type m ! i \<and> sample_offset mf ! i = sample_offset m ! i
         \<and> sample_size mf ! i = sample_size m ! i \<and> sample_pts mf ! i = sample_pts m ! i"
proof -
  have mode': "mode \<noteq> PICTURE_UNFILTERED"
    using mode by auto
  from idr_filtering_built [OF mode' res] mf
  have w: "write_filtered mode m (spspps_of m) (recorded m) (length (survivors m))
                     (clamped m n) (c_div (int (length (survivors m))) (clamped m n - 1))
                     (fresh_map (nat (spspps_of m + int (length (survivors m))))) = Inr mf"
    by auto
  from i have "i < nat (spspps_of m)"
    by simp
  with write_filtered_result [OF w valid_map_lengths [OF valid]] show ?thesis
    by simp
qed

text \<open>
  C1.  What the code does: in modes ORDERED and DISTRIBUTED, whenever the filter returns
  a positive picture count, the caller's handle is null afterwards (the old map is
  released through it) and the filtered map is held by the local \<^verbatim>\<open>map_filtered\<close> only.
\<close>

theorem idr_filtering_caller_handle_null:
  assumes mode: "mode = PICTURE_ORDERED \<or> mode = PICTURE_DISTRIBUTED"
    and res: "idr_filtering heap (Some (Some m)) n mode = Inr (r, hs)"
    and r: "0 < r"
  shows "caller_handle hs = None \<and> map_filtered hs \<noteq> None"
proof -
  have mode': "mode \<noteq> PICTURE_UNFILTERED"
    using mode by auto
  from idr_filtering_built [OF mode' res] r show ?thesis
    by auto
qed

lemma map_4idr_valid: "valid_map map_4idr"
  by (simp add: valid_map_def map_4idr_def)

lemma map_4idr_ordered_result:
  "idr_filtering all_allocated (Some (Some map_4idr)) 2 PICTURE_ORDERED =
     Inr (2, \<lparr>caller_handle = None, map_filtered = Some map_4idr_ordered_2\<rparr>)"
  unfolding map_4idr_ordered_2_def by (rule map_4idr_ordered)

theorem idr_filtering_caller_handle_null_witness:
  "idr_filtering all_allocated (Some (Some map_4idr)) 2 PICTURE_ORDERED =
     Inr (2, \<lparr>caller_handle = None, map_filtered = Some map_4idr_ordered_2\<rparr>)
   \<and> caller_handle \<lparr>caller_handle = None, map_filtered = Some map_4idr_ordered_2\<rparr> = None
   \<and> map_filtered \<lparr>caller_handle = None, map_filtered = Some map_4idr_ordered_2\<rparr> \<noteq> None"
  using idr_filtering_caller_handle_null [OF _ map_4idr_ordered_result] map_4idr_ordered_result
  by simp

theorem idr_filtering_keeps_parameter_sets_witness:
  "valid_map map_4idr
   \<and> idr_filtering all_allocated (Some (Some map_4idr)) 2 PICTURE_ORDERED =
     Inr (2, \<lparr>caller_handle = None, map_filtered = Some map_4idr_ordered_2\<rparr>)
   \<and> int 0 < spspps_of map_4idr
   \<and> sample_type map_4idr_ordered_2 ! 0 = sample_type map_4idr ! 0
   \<and> sample_offset map_4idr_ordered_2 ! 0 = sample_offset map_4idr ! 0
   \<and> sample_size map_4idr_ordered_2 ! 0 = sample_size map_4idr ! 0
   \<and> sample_pts map_4idr_ordered_2 ! 0 = sample_pts map_4idr ! 0"
  using idr_filtering_keeps_parameter_sets
          [OF map_4idr_valid _ map_4idr_ordered_result, of map_4idr_ordered_2 0]
    map_4idr_valid map_4idr_ordered_result
  by (simp add: map_4idr_quantities)

text \<open>
  The filtered map of the run above has \<^verbatim>\<open>sample_dts[0] = 0\<close> where the original has 9:
  \<^verbatim>\<open>sample_dts\<close> is not among the fields the filter copies.
\<close>

theorem idr_filtering_drops_dts:
  "idr_filtering all_allocated (Some (Some map_4idr)) 2 PICTURE_ORDERED =
     Inr (2, \<lparr>caller_handle = None, map_filtered = Some map_4idr_ordered_2\<rparr>)
   \<and> sample_count map_4idr - sample_count_idr map_4idr = 1
   \<and> sample_dts map_4idr_ordered_2 ! 0 = 0 \<and> sample_dts map_4idr ! 0 = 9"
  using map_4idr_ordered_result by (simp add: map_4idr_def map_4idr_ordered_2_def)

lemma map_4idr_distributed:
  "idr_filtering all_allocated (Some (Some map_4idr)) 2 PICTURE_DISTRIBUTED =
     Inr (2, \<lparr>caller_handle = None, map_filtered = Some map_4idr_distributed_2\<rparr>)"
proof -
  have w: "write_filtered PICTURE_DISTRIBUTED map_4idr (spspps_of map_4idr) (recorded map_4idr)
                (length (survivors map_4idr)) (clamped map_4idr 2)
                (c_div (int (length (survivors map_4idr))) (clamped map_4idr 2 - 1))
                (fresh_map (nat (spspps_of map_4idr + int (length (survivors map_4idr))))) =
           Inr map_4idr_distributed_2"
    unfolding map_4idr_recorded map_4idr_survivors map_4idr_clamped map_4idr_quantities
    by (simp add: write_filtered_def fresh_map_3 Let_def copy_sample_def temporary_read_def
                  map_4idr_def upt_0_2 c_div_def map_4idr_distributed_2_def)
  have "idr_filtering all_allocated (Some (Some map_4idr)) 2 PICTURE_DISTRIBUTED =
           and_then
             (write_filtered PICTURE_DISTRIBUTED map_4idr (spspps_of map_4idr) (recorded map_4idr)
                (length (survivors map_4idr)) (clamped map_4idr 2)
                (c_div (int (length (survivors map_4idr))) (clamped map_4idr 2 - 1))
                (fresh_map (nat (spspps_of map_4idr + int (length (survivors map_4idr))))))
             (\<lambda>mf. Inr (clamped map_4idr 2, \<lparr>caller_handle = None, map_filtered = Some mf\<rparr>))"
    by (rule idr_filtering_writes)
       (simp_all add: map_4idr_survivors map_4idr_clamped map_4idr_quantities all_allocated_def)
  then show ?thesis
    unfolding w by (simp add: map_4idr_clamped)
qed

lemma map_4idr_division_by_zero:
  "idr_filtering all_allocated (Some (Some map_4idr)) 1 PICTURE_ORDERED = Inl DivisionByZero"
  by (rule idr_filtering_division_by_zero) (simp_all add: map_4idr_survivors map_4idr_clamped)

lemma map_5idr_payload: "payload_sum map_5idr 1 = 500"
  by code_simp

lemma map_5idr_quantities:
  "spspps_of map_5idr = 1" "threshold_of map_5idr = 60" "frame_borders (sample_count_idr map_5idr) = 1"
proof -
  show s: "spspps_of map_5idr = 1"
    by (simp add: spspps_of_def map_5idr_def)
  have "threshold_of map_5idr = frame_sizethreshold 500 5"
    unfolding threshold_of_def s map_5idr_payload by (simp add: map_5idr_def)
  also have "\<dots> = 60"
    by (simp add: frame_sizethreshold_def quotient_100 threshold_100)
  finally show "threshold_of map_5idr = 60" .
  show "frame_borders (sample_count_idr map_5idr) = 1"
    by (simp add: frame_borders_def map_5idr_def borders_5)
qed

lemma map_5idr_survivors: "survivors map_5idr = [1, 2, 3]"
  unfolding survivors_def map_5idr_quantities
  by (simp add: map_5idr_def upto_rec1)

lemma map_5idr_recorded: "recorded map_5idr = [2, 3, 4] @ replicate 996 0"
  by (simp add: recorded_def map_5idr_survivors map_5idr_quantities)

lemma map_5idr_clamped: "clamped map_5idr 2 = 2"
  unfolding clamped_def map_5idr_survivors by (simp_all add: map_5idr_def)

lemma fresh_map_4:
  "fresh_map 4 =
     \<lparr>stream_type = 0, stream_codec = 0, sample_alignment = 0,
      sample_count = 0, sample_count_idr = 0,
      sample_type = [0, 0, 0, 0], sample_size = [0, 0, 0, 0], sample_offset = [0, 0, 0, 0],
      sample_pts = [0, 0, 0, 0], sample_dts = [0, 0, 0, 0]\<rparr>"
  by (simp add: fresh_map_def eval_nat_numeral)

lemma map_5idr_ordered:
  "idr_filtering all_allocated (Some (Some map_5idr)) 2 PICTURE_ORDERED =
     Inr (2, \<lparr>caller_handle = None, map_filtered = Some map_5idr_ordered_2\<rparr>)"
proof -
  have w: "write_filtered PICTURE_ORDERED map_5idr (spspps_of map_5idr) (recorded map_5idr)
                (length (survivors map_5idr)) (clamped map_5idr 2)
                (c_div (int (length (survivors map_5idr))) (clamped map_5idr 2 - 1))
                (fresh_map (nat (spspps_of map_5idr + int (length (survivors map_5idr))))) =
           Inr map_5idr_ordered_2"
    unfolding map_5idr_recorded map_5idr_survivors map_5idr_clamped map_5idr_quantities
    by (simp add: write_filtered_def fresh_map_4 Let_def copy_sample_def temporary_read_def
                  map_5idr_def upt_0_2 map_5idr_ordered_2_def)
  have "idr_filtering all_allocated (Some (Some map_5idr)) 2 PICTURE_ORDERED =
           and_then
             (write_filtered PICTURE_ORDERED map_5idr (spspps_of map_5idr) (recorded map_5idr)
                (length (survivors map_5idr)) (clamped map_5idr 2)
                (c_div (int (length (survivors map_5idr))) (clamped map_5idr 2 - 1))
                (fresh_map (nat (spspps_of map_5idr + int (length (survivors map_5idr))))))
             (\<lambda>mf. Inr (clamped map_5idr 2, \<lparr>caller_handle = None, map_filtered = Some mf\<rparr>))"
    by (rule idr_filtering_writes)
       (simp_all add: map_5idr_survivors map_5idr_clamped map_5idr_quantities all_allocated_def)
  then show ?thesis
    unfolding w by (simp add: map_5idr_clamped)
qed

lemma foldl_payload:
  "a \<le> b \<Longrightarrow> b \<le> length xs \<Longrightarrow>
   foldl (\<lambda>payload i. payload + xs ! i) s [a..<b] = s + sum_list (drop a (take b xs))"
proof (induction b)
  case 0
  then show ?case by simp
next
  case (Suc b)
  show ?case
  proof (cases "a = Suc b")
    case True
    then show ?thesis by simp
  next
    case False
    with Suc.prems have ab: "a \<le> b" and bl: "b < length xs" by simp_all
    then have "foldl (\<lambda>payload i. payload + xs ! i) s [a..<b] = s + sum_list (drop a (take b xs))"
      using Suc.IH by simp
    moreover have "drop a (take (Suc b) xs) = drop a (take b xs) @ [xs ! b]"
      using ab bl by (simp add: take_Suc_conv_app_nth)
    ultimately show ?thesis
      using ab by (simp add: add.assoc)
  qed
qed

lemma map_1100idr_payload: "payload_sum map_1100idr 1 = 110000"
proof -
  have "payload_sum map_1100idr 1 =
          foldl (\<lambda>payload i. payload + (20 # replicate 1100 100) ! i) (0::32 word) [1..<1101]"
    by (simp add: payload_sum_def map_1100idr_def)
  also have "\<dots> = 0 + sum_list (drop 1 (take 1101 (20 # replicate 1100 (100::32 word))))"
    by (rule foldl_payload) simp_all
  also have "\<dots> = 110000"
    by (simp add: sum_list_replicate)
  finally show ?thesis .
qed

lemma map_1100idr_quantities:
  "spspps_of map_1100idr = 1" "threshold_of map_1100idr = 60"
  "frame_borders (sample_count_idr map_1100idr) = 33"
proof -
  show s: "spspps_of map_1100idr = 1"
    by (simp add: spspps_of_def map_1100idr_def)
  have "threshold_of map_1100idr = frame_sizethreshold 110000 1100"
    unfolding threshold_of_def s map_1100idr_payload by (simp add: map_1100idr_def)
  also have "\<dots> = 60"
    by (simp add: frame_sizethreshold_def quotient_100 threshold_100)
  finally show "threshold_of map_1100idr = 60" .
  show "frame_borders (sample_count_idr map_1100idr) = 33"
    by (simp add: frame_borders_def map_1100idr_def borders_1100)
qed

lemma map_1100idr_survivors: "survivors map_1100idr = [33..1066]"
proof -
  have "filter (\<lambda>i. word_of_int 60 < sample_size map_1100idr ! nat (i + 1)) [33..1066] = [33..1066]"
  proof (rule filter_True, rule ballI)
    fix i :: int
    assume "i \<in> set [33..1066]"
    then have "i \<in> {33..1066}"
      by (simp only: set_upto)
    then have "33 \<le> i" "i \<le> 1066"
      by simp_all
    then have "nat (i + 1) = Suc (nat i)" "nat i < 1100"
      by linarith+
    then show "word_of_int 60 < sample_size map_1100idr ! nat (i + 1)"
      by (simp add: map_1100idr_def)
  qed
  moreover have "survivors map_1100idr =
          filter (\<lambda>i. word_of_int 60 < sample_size map_1100idr ! nat (i + 1)) [33..1066]"
    unfolding survivors_def map_1100idr_quantities
    by (simp add: map_1100idr_def del: upto_rec_numeral)
  ultimately show ?thesis
    by (simp only:)
qed

lemma map_1100idr_survivors_length: "length (survivors map_1100idr) = 1034"
  by (simp add: map_1100idr_survivors del: upto_rec_numeral)

lemma map_1100idr_overflow:
  "idr_filtering all_allocated (Some (Some map_1100idr)) 10 PICTURE_ORDERED = Inl OutOfBounds"
  by (rule idr_filtering_overflow) (simp_all add: map_1100idr_survivors_length)


lemma map_5idr_valid: "valid_map map_5idr"
  by (simp add: valid_map_def map_5idr_def)

lemma map_1100idr_valid: "valid_map map_1100idr"
  by (simp add: valid_map_def map_1100idr_def)

text \<open>
  On \<open>map_5idr\<close> three samples pass the first cut.  Asked for two pictures in mode
  ORDERED the filter returns 2, and the map it builds has room for, and counts, three IDR
  samples: \<^verbatim>\<open>sample_count_idr\<close> is 3 and \<^verbatim>\<open>sample_count\<close> is 4, the last slot being
  left as \<^verbatim>\<open>calloc\<close> zeroed it.
\<close>

theorem idr_filtering_counts_every_survivor:
  "valid_map map_5idr \<and> 0 < sample_count_idr map_5idr \<and> length (survivors map_5idr) = 3
   \<and> idr_filtering all_allocated (Some (Some map_5idr)) 2 PICTURE_ORDERED =
       Inr (2, \<lparr>caller_handle = None, map_filtered = Some map_5idr_ordered_2\<rparr>)
   \<and> sample_count_idr map_5idr_ordered_2 = 3 \<and> sample_count map_5idr_ordered_2 = 4
   \<and> sample_type map_5idr_ordered_2 = [7, 5, 5, 0]"
  using map_5idr_valid map_5idr_ordered
  by (simp add: map_5idr_survivors map_5idr_ordered_2_def) (simp add: map_5idr_def)

subsection \<open>The first cut on a whole map\<close>

text \<open>
  C3.  What the code does: started on the zeroed array, the first cut visits the IDR
  indices from \<open>frame_borders\<close> up to \<open>sample_count_idr - frame_borders\<close> (excluded) in
  increasing order and keeps those whose size exceeds the threshold; these are the
  \<open>survivors\<close>, sorted and without repetition.  When at most 999 samples survive, the cut
  ends with their sample indices at the front of \<^verbatim>\<open>temporary_sample_id\<close>, in that order,
  and with their number in \<^verbatim>\<open>temporary_totalsamples_idr\<close>.  When more than 999 survive,
  the cut writes past the end of the array.
\<close>

theorem first_cut_records_survivors:
  "first_cut m (spspps_of m) (threshold_of m)
     (int (sample_count_idr m) - frame_borders (sample_count_idr m))
     (frame_borders (sample_count_idr m)) (replicate 999 0, 0)
   = (if length (survivors m) \<le> 999 then Inr (recorded m, length (survivors m))
      else Inl OutOfBounds)
   \<and> (\<forall>i. i \<in> set (survivors m) \<longleftrightarrow> survives m i)
   \<and> sorted (survivors m) \<and> distinct (survivors m)"
proof (intro conjI)
  show "first_cut m (spspps_of m) (threshold_of m)
          (int (sample_count_idr m) - frame_borders (sample_count_idr m))
          (frame_borders (sample_count_idr m)) (replicate 999 0, 0)
        = (if length (survivors m) \<le> 999 then Inr (recorded m, length (survivors m))
           else Inl OutOfBounds)"
  proof (cases "length (survivors m) \<le> 999")
    case True
    then show ?thesis
      by (simp only: first_cut_of_map if_True)
  next
    case False
    then have "999 < length (survivors m)"
      by simp
    with False show ?thesis
      by (simp only: first_cut_of_map_overflow if_False)
  qed
  show "\<forall>i. i \<in> set (survivors m) \<longleftrightarrow> survives m i"
    by (simp add: set_survivors)
  show "sorted (survivors m)" "distinct (survivors m)"
    using survivors_ordered [of m] by simp_all
qed

text \<open>
  On \<open>map_1100idr\<close> the border is 33 and the threshold 60, so the 1034 samples with IDR
  index 33 to 1066 survive: the first cut, and the filter with it, runs past the array.
\<close>

theorem first_cut_records_survivors_witness:
  "valid_map map_1100idr
   \<and> spspps_of map_1100idr = 1 \<and> threshold_of map_1100idr = 60
   \<and> frame_borders (sample_count_idr map_1100idr) = 33
   \<and> length (survivors map_1100idr) = 1034
   \<and> first_cut map_1100idr (spspps_of map_1100idr) (threshold_of map_1100idr)
       (int (sample_count_idr map_1100idr) - frame_borders (sample_count_idr map_1100idr))
       (frame_borders (sample_count_idr map_1100idr)) (replicate 999 0, 0) = Inl OutOfBounds
   \<and> idr_filtering all_allocated (Some (Some map_1100idr)) 10 PICTURE_ORDERED = Inl OutOfBounds"
proof -
  have "first_cut map_1100idr (spspps_of map_1100idr) (threshold_of map_1100idr)
          (int (sample_count_idr map_1100idr) - frame_borders (sample_count_idr map_1100idr))
          (frame_borders (sample_count_idr map_1100idr)) (replicate 999 0, 0) = Inl OutOfBounds"
    using first_cut_records_survivors [of map_1100idr]
    by (simp add: map_1100idr_survivors_length)
  then show ?thesis
    using map_1100idr_valid map_1100idr_quantities map_1100idr_survivors_length
      map_1100idr_overflow
    by (simp only: simp_thms)
qed

subsection \<open>Mode DISTRIBUTED\<close>

text \<open>
  C4.  What the code does on \<open>map_4idr\<close>, two pictures requested in mode DISTRIBUTED: two
  samples survive (\<open>N = 2\<close>), the clamped request is 2 and \<^verbatim>\<open>frame_jump\<close> is
  \<open>2 / (2 - 1) = 2\<close>, so the second picture is read from \<^verbatim>\<open>temporary_sample_id[2]\<close>.
  That slot was never written and still holds 0: the filter appends sample 0 of the
  original map, its parameter set, as second picture.
\<close>

theorem idr_filtering_distributed_no_edge_clamping:
  "valid_map map_4idr \<and> length (survivors map_4idr) = 2 \<and> clamped map_4idr 2 = 2
   \<and> (2 - 1) * c_div (int (length (survivors map_4idr))) (clamped map_4idr 2 - 1) = 2
   \<and> temporary_read (recorded map_4idr) 2 = Inr 0
   \<and> idr_filtering all_allocated (Some (Some map_4idr)) 2 PICTURE_DISTRIBUTED =
       Inr (2, \<lparr>caller_handle = None, map_filtered = Some map_4idr_distributed_2\<rparr>)
   \<and> sample_type map_4idr_distributed_2 ! 2 = sample_type map_4idr ! 0
   \<and> sample_offset map_4idr_distributed_2 ! 2 = sample_offset map_4idr ! 0
   \<and> sample_size map_4idr_distributed_2 ! 2 = sample_size map_4idr ! 0
   \<and> sample_type map_4idr ! 0 = 7"
proof -
  have "(2 - 1) * c_div (int (length (survivors map_4idr))) (clamped map_4idr 2 - 1) = 2"
    by (simp add: map_4idr_survivors map_4idr_clamped c_div_def)
  moreover have "temporary_read (recorded map_4idr) 2 = Inr 0"
    by (simp add: map_4idr_recorded temporary_read_def)
  moreover have "sample_type map_4idr_distributed_2 ! 2 = sample_type map_4idr ! 0"
    "sample_offset map_4idr_distributed_2 ! 2 = sample_offset map_4idr ! 0"
    "sample_size map_4idr_distributed_2 ! 2 = sample_size map_4idr ! 0"
    "sample_type map_4idr ! 0 = 7"
    by (simp_all add: map_4idr_distributed_2_def map_4idr_def)
  moreover have "length (survivors map_4idr) = 2"
    by (simp add: map_4idr_survivors)
  ultimately show ?thesis
    using map_4idr_valid map_4idr_clamped(1) map_4idr_distributed
    by (simp only: simp_thms)
qed

subsection \<open>The slots the second cut writes\<close>

lemma second_cut_step:
  "mode \<noteq> PICTURE_UNFILTERED \<Longrightarrow>
   second_cut mode m spspps ids frame_jump (i # idx) mf =
     and_then
       (temporary_read ids (if mode = PICTURE_DISTRIBUTED then int i * frame_jump else int i))
       (\<lambda>src. second_cut mode m spspps ids frame_jump idx
                 (copy_sample m (nat src) (nat (spspps + int i)) mf))"
  by (cases mode) simp_all

lemma copy_sample_slots: "slots (copy_sample m src dst mf) entries = slots mf entries"
  by (simp add: slots_def copy_sample_def)

lemma copy_sample_same:
  "slots mf entries \<Longrightarrow> dst < entries \<Longrightarrow> same_sample m src (copy_sample m src dst mf) dst"
  by (simp add: slots_def same_sample_def copy_sample_def)

lemma copy_sample_other: "k \<noteq> dst \<Longrightarrow> same_sample mf k (copy_sample m src dst mf) k"
  by (simp add: same_sample_def copy_sample_keeps)

lemma same_sample_trans:
  "same_sample a i b j \<Longrightarrow> same_sample b j c k \<Longrightarrow> same_sample a i c k"
  by (simp add: same_sample_def)

lemma second_cut_writes:
  assumes "second_cut mode m spspps ids frame_jump idx mf = Inr mf'"
    and "mode \<noteq> PICTURE_UNFILTERED" "0 \<le> spspps" "distinct idx" "slots mf entries"
    and "\<forall>i\<in>set idx. nat (spspps + int i) < entries"
  shows "slots mf' entries
         \<and> (\<forall>i\<in>set idx.
               same_sample m
                 (nat (ids ! nat (if mode = PICTURE_DISTRIBUTED then int i * frame_jump else int i)))
                 mf' (nat (spspps + int i)))
         \<and> (\<forall>k. (\<forall>i\<in>set idx. k \<noteq> nat (spspps + int i)) \<longrightarrow> same_sample mf k mf' k)"
  using assms
proof (induction idx arbitrary: mf)
  case Nil
  then show ?case by (simp add: same_sample_def)
next
  case (Cons i idx)
  let ?rd = "if mode = PICTURE_DISTRIBUTED then int i * frame_jump else int i"
  let ?dst = "nat (spspps + int i)"
  from Cons.prems(1) have
    "and_then (temporary_read ids ?rd)
       (\<lambda>src. second_cut mode m spspps ids frame_jump idx (copy_sample m (nat src) ?dst mf)) =
     Inr mf'"
    by (simp only: second_cut_step [OF Cons.prems(2)])
  then obtain src where
    rd: "temporary_read ids ?rd = Inr src"
    and rest: "second_cut mode m spspps ids frame_jump idx (copy_sample m (nat src) ?dst mf) = Inr mf'"
    by (auto simp: and_then_def split: sum.splits)
  let ?mf1 = "copy_sample m (nat src) ?dst mf"
  from rd have src: "src = ids ! nat ?rd"
    by (simp add: temporary_read_Inr)
  have s1: "slots ?mf1 entries"
    using Cons.prems(5) by (simp add: copy_sample_slots)
  have "slots mf' entries
         \<and> (\<forall>j\<in>set idx.
               same_sample m
                 (nat (ids ! nat (if mode = PICTURE_DISTRIBUTED then int j * frame_jump else int j)))
                 mf' (nat (spspps + int j)))
         \<and> (\<forall>k. (\<forall>j\<in>set idx. k \<noteq> nat (spspps + int j)) \<longrightarrow> same_sample ?mf1 k mf' k)"
    using rest Cons.prems(2,3) Cons.prems(4) s1 Cons.prems(6) by (intro Cons.IH) simp_all
  then have IH1: "slots mf' entries"
    and IH2: "\<forall>j\<in>set idx.
               same_sample m
                 (nat (ids ! nat (if mode = PICTURE_DISTRIBUTED then int j * frame_jump else int j)))
                 mf' (nat (spspps + int j))"
    and IH3: "\<forall>k. (\<forall>j\<in>set idx. k \<noteq> nat (spspps + int j)) \<longrightarrow> same_sample ?mf1 k mf' k"
    by blast+
  have apart: "?dst \<noteq> nat (spspps + int j)" if "j \<in> set idx" for j
  proof -
    from that Cons.prems(4) have "j \<noteq> i" by auto
    with Cons.prems(3) show ?thesis by linarith
  qed
  have here: "same_sample m (nat (ids ! nat ?rd)) mf' ?dst"
  proof -
    have "?dst < entries"
      using Cons.prems(6) by simp
    with Cons.prems(5) have "same_sample m (nat src) ?mf1 ?dst"
      by (rule copy_sample_same)
    moreover have "same_sample ?mf1 ?dst mf' ?dst"
      using IH3 apart by blast
    ultimately show ?thesis
      unfolding src by (rule same_sample_trans)
  qed
  have others: "same_sample mf k mf' k" if "\<forall>j\<in>set (i # idx). k \<noteq> nat (spspps + int j)" for k
  proof -
    from that have "k \<noteq> ?dst" "\<forall>j\<in>set idx. k \<noteq> nat (spspps + int j)"
      by simp_all
    then have "same_sample mf k ?mf1 k" "same_sample ?mf1 k mf' k"
      using IH3 by (simp_all add: copy_sample_other)
    then show ?thesis
      by (rule same_sample_trans)
  qed
  from IH1 IH2 here others show ?case
    by simp
qed

lemma write_filtered_slots:
  assumes w: "write_filtered mode m spspps ids cnt p frame_jump
                (fresh_map (nat (spspps + int cnt))) = Inr mf"
    and mode: "mode \<noteq> PICTURE_UNFILTERED" and sp: "0 \<le> spspps" and p: "p \<le> int cnt"
    and len: "nat spspps \<le> length (sample_type m)" "nat spspps \<le> length (sample_pts m)"
      "nat spspps \<le> length (sample_offset m)" "nat spspps \<le> length (sample_size m)"
  shows "slots mf (nat (spspps + int cnt))"
    and "\<forall>i<nat p.
           same_sample m
             (nat (ids ! nat (if mode = PICTURE_DISTRIBUTED then int i * frame_jump else int i)))
             mf (nat spspps + i)"
    and "\<forall>k. nat spspps + nat p \<le> k \<and> k < nat (spspps + int cnt) \<longrightarrow> blank_sample mf k"
proof -
  let ?L = "nat (spspps + int cnt)"
  define mf0 where "mf0 = (fresh_map ?L)\<lparr>sample_count := ?L, sample_count_idr := cnt\<rparr>"
  define mf1 where "mf1 = fold (\<lambda>i. copy_sample m i i) [0..<nat spspps] mf0"
  have w': "second_cut mode m spspps ids frame_jump [0..<nat p] mf1 = Inr mf"
    using w by (simp add: write_filtered_def Let_def mf0_def mf1_def)
  have room: "nat spspps \<le> ?L"
    by simp
  have mf1: "mf1 = mf0\<lparr>sample_type := take (nat spspps) (sample_type m) @ drop (nat spspps) (sample_type mf0),
              sample_pts := take (nat spspps) (sample_pts m) @ drop (nat spspps) (sample_pts mf0),
              sample_offset := take (nat spspps) (sample_offset m) @ drop (nat spspps) (sample_offset mf0),
              sample_size := take (nat spspps) (sample_size m) @ drop (nat spspps) (sample_size mf0)\<rparr>"
    unfolding mf1_def using len room
    by (intro fold_copy_sample) (simp_all add: mf0_def fresh_map_def)
  have s1: "slots mf1 ?L"
    using len by (simp add: mf1 mf0_def fresh_map_def slots_def)
  have blank1: "blank_sample mf1 k" if "nat spspps \<le> k" "k < ?L" for k
  proof -
    from that have "k - nat spspps < ?L - nat spspps"
      by linarith
    with that len show ?thesis
      by (simp add: mf1 mf0_def fresh_map_def blank_sample_def nth_append)
  qed
  have dst: "nat (spspps + int i) = nat spspps + i" for i
    using sp by simp
  have inside: "\<forall>i\<in>set [0..<nat p]. nat (spspps + int i) < ?L"
    using p sp by auto
  from second_cut_writes [OF w' mode sp _ s1 inside]
  have r1: "slots mf ?L"
    and r2: "\<forall>i\<in>set [0..<nat p].
               same_sample m
                 (nat (ids ! nat (if mode = PICTURE_DISTRIBUTED then int i * frame_jump else int i)))
                 mf (nat (spspps + int i))"
    and r3: "\<forall>k. (\<forall>i\<in>set [0..<nat p]. k \<noteq> nat (spspps + int i)) \<longrightarrow> same_sample mf1 k mf k"
    by simp_all
  show "slots mf ?L"
    by (rule r1)
  show "\<forall>i<nat p.
           same_sample m
             (nat (ids ! nat (if mode = PICTURE_DISTRIBUTED then int i * frame_jump else int i)))
             mf (nat spspps + i)"
    using r2 by (simp add: dst)
  have dts: "sample_dts mf = sample_dts mf1"
    using second_cut_keeps [OF w'] by simp
  show "\<forall>k. nat spspps + nat p \<le> k \<and> k < ?L \<longrightarrow> blank_sample mf k"
  proof (intro allI impI)
    fix k assume k: "nat spspps + nat p \<le> k \<and> k < ?L"
    then have "\<forall>i\<in>set [0..<nat p]. k \<noteq> nat (spspps + int i)"
      by (auto simp: dst)
    with r3 have "same_sample mf1 k mf k"
      by blast
    moreover from k have "blank_sample mf1 k"
      by (intro blank1) simp_all
    ultimately show "blank_sample mf k"
      by (simp add: same_sample_def blank_sample_def dts)
  qed
qed

lemma recorded_nth:
  "k < length (survivors m) \<Longrightarrow> recorded m ! k = survivors m ! k + spspps_of m"
  by (simp add: recorded_def nth_append)

lemma survivor_in_map:
  assumes "sample_count_idr m \<le> sample_count m" "i < length (survivors m)"
  shows "0 \<le> survivors m ! i" "spspps_of m + survivors m ! i < int (sample_count m)"
proof -
  from assms(2) have "survivors m ! i \<in> set (survivors m)"
    by simp
  then have "survives m (survivors m ! i)"
    by (simp add: set_survivors)
  then have "frame_borders (sample_count_idr m) \<le> survivors m ! i"
    "survivors m ! i < int (sample_count_idr m) - frame_borders (sample_count_idr m)"
    by (simp_all add: survives_def)
  with frame_borders_nonneg [of "sample_count_idr m"] assms(1)
  show "0 \<le> survivors m ! i" "spspps_of m + survivors m ! i < int (sample_count m)"
    by (simp_all add: spspps_of_def)
qed


subsection \<open>The count returned and the map built\<close>

text \<open>
  C2 (as amended).  For a valid map with at least one IDR sample, a request \<open>n \<ge> 0\<close> in
  mode ORDERED or DISTRIBUTED, all allocations succeeding for a non-empty filtered map, at
  most 999 survivors, a clamped request \<open>min n N\<close> other than 1 and, in mode DISTRIBUTED,
  every index \<open>i * frame_jump\<close> below 999: the filter returns \<open>min n N\<close>, where \<open>N\<close> is
  the number of survivors of the first cut.  The filtered map it builds has
  \<open>sample_count_idr = N\<close>, \<open>sample_count = spspps + N\<close> and that many slots in every
  array.  Of its \<open>N\<close> IDR slots the first \<open>min n N\<close> are written: in mode ORDERED slot
  \<open>spspps + i\<close> holds the \<open>i\<close>-th survivor, a sample of the original map; in mode
  DISTRIBUTED it holds the survivor number \<open>i * frame_jump\<close> whenever that number is
  below \<open>N\<close>, with \<open>frame_jump = N div (min n N - 1)\<close>.  The remaining
  \<open>N - min n N\<close> slots are as \<^verbatim>\<open>calloc\<close> left them.
\<close>

theorem idr_filtering_returns_clamped_count:
  assumes valid: "valid_map m" and idr: "0 < sample_count_idr m" and n: "0 \<le> n"
    and mode: "mode = PICTURE_ORDERED \<or> mode = PICTURE_DISTRIBUTED"
    and heap: "map_allocated heap" "sample_type_allocated heap" "sample_size_allocated heap"
      "sample_offset_allocated heap" "sample_pts_allocated heap" "sample_dts_allocated heap"
    and entries: "0 < spspps_of m + int (length (survivors m))"
    and fit: "length (survivors m) \<le> 999"
    and p: "min n (int (length (survivors m))) \<noteq> 1"
    and reads: "mode = PICTURE_DISTRIBUTED \<longrightarrow>
                  (min n (int (length (survivors m))) - 1)
                    * c_div (int (length (survivors m))) (min n (int (length (survivors m))) - 1)
                  < 999"
  shows "\<exists>mf. idr_filtering heap (Some (Some m)) n mode =
                 Inr (min n (int (length (survivors m))),
                      \<lparr>caller_handle = None, map_filtered = Some mf\<rparr>)
              \<and> sample_count_idr mf = length (survivors m)
              \<and> sample_count mf = nat (spspps_of m + int (length (survivors m)))
              \<and> slots mf (nat (spspps_of m + int (length (survivors m))))
              \<and> (mode = PICTURE_ORDERED \<longrightarrow>
                   (\<forall>i<nat (min n (int (length (survivors m)))).
                      nat (spspps_of m + survivors m ! i) < sample_count m
                      \<and> same_sample m (nat (spspps_of m + survivors m ! i))
                            mf (nat (spspps_of m) + i)))
              \<and> (mode = PICTURE_DISTRIBUTED \<longrightarrow>
                   (\<forall>i<nat (min n (int (length (survivors m)))).
                      i * nat (c_div (int (length (survivors m)))
                                 (min n (int (length (survivors m))) - 1))
                        < length (survivors m) \<longrightarrow>
                      same_sample m
                        (nat (spspps_of m
                              + survivors m ! (i * nat (c_div (int (length (survivors m)))
                                                         (min n (int (length (survivors m))) - 1)))))
                        mf (nat (spspps_of m) + i)))
              \<and> (\<forall>k. nat (spspps_of m) + nat (min n (int (length (survivors m)))) \<le> k
                      \<and> k < nat (spspps_of m + int (length (survivors m))) \<longrightarrow>
                    blank_sample mf k)"
proof -
  define N where "N = length (survivors m)"
  define q where "q = min n (int N)"
  define J where "J = c_div (int N) (q - 1)"
  have cl: "clamped m n = q"
    unfolding q_def N_def using idr by (rule clamped_min)
  have mode': "mode \<noteq> PICTURE_UNFILTERED"
    using mode by auto
  have sp: "0 \<le> spspps_of m"
    using valid by (simp add: valid_map_def spspps_of_def)
  have qN: "q \<le> int N"
    by (simp add: q_def)
  have run: "idr_filtering heap (Some (Some m)) n mode =
           and_then
             (write_filtered mode m (spspps_of m) (recorded m) N q J
                (fresh_map (nat (spspps_of m + int N))))
             (\<lambda>mf. Inr (q, \<lparr>caller_handle = None, map_filtered = Some mf\<rparr>))"
    using idr_filtering_writes [OF mode' fit _ heap entries, of n] p
    unfolding cl N_def [symmetric] q_def [symmetric] J_def [symmetric] by simp
  have len: "length (recorded m) = 999"
    using fit by (rule length_recorded)
  have ordered: "\<forall>i\<in>set [0..<nat q]. int i < int (length (recorded m))"
    using fit by (auto simp: len q_def N_def)
  have jump: "0 \<le> J" if "0 < q"
  proof -
    from p have "q \<noteq> 1"
      unfolding q_def N_def .
    with that have "0 < q - 1"
      by linarith
    then show ?thesis
      unfolding J_def by (simp add: c_div_nonneg pos_imp_zdiv_nonneg_iff)
  qed
  have distributed: "\<forall>i\<in>set [0..<nat q]. 0 \<le> int i * J \<and> int i * J < int (length (recorded m))"
    if "mode = PICTURE_DISTRIBUTED"
  proof
    fix i assume "i \<in> set [0..<nat q]"
    then have i: "int i \<le> q - 1" "0 < q"
      by auto
    from i(2) have j: "0 \<le> J"
      by (rule jump)
    from i(1) j have "int i * J \<le> (q - 1) * J"
      by (rule mult_right_mono)
    also have "\<dots> < 999"
      using reads that by (simp add: q_def N_def J_def)
    finally show "0 \<le> int i * J \<and> int i * J < int (length (recorded m))"
      using j by (simp add: len)
  qed
  obtain mf where w: "write_filtered mode m (spspps_of m) (recorded m) N q J
                (fresh_map (nat (spspps_of m + int N))) = Inr mf"
    unfolding write_filtered_def Let_def
    using second_cut_defined [of mode "[0..<nat q]" "recorded m" J] ordered distributed
    by blast
  from write_filtered_result [OF w valid_map_lengths [OF valid]]
  have counts: "sample_count_idr mf = N" "sample_count mf = nat (spspps_of m + int N)"
    by simp_all
  note written = write_filtered_slots [OF w mode' sp qN valid_map_lengths [OF valid]]
  have idr_le: "sample_count_idr m \<le> sample_count m"
    using valid by (simp add: valid_map_def)
  have ord: "nat (spspps_of m + survivors m ! i) < sample_count m
             \<and> same_sample m (nat (spspps_of m + survivors m ! i)) mf (nat (spspps_of m) + i)"
    if "mode = PICTURE_ORDERED" "i < nat q" for i
  proof -
    from that(2) qN have iN: "i < length (survivors m)"
      unfolding N_def by linarith
    from survivor_in_map [OF idr_le iN] sp
    have inside: "nat (spspps_of m + survivors m ! i) < sample_count m"
      by linarith
    from written(2) that have "same_sample m (nat (recorded m ! nat (int i))) mf (nat (spspps_of m) + i)"
      by simp
    with inside show ?thesis
      by (simp add: recorded_nth [OF iN] add.commute)
  qed
  have dis: "same_sample m (nat (spspps_of m + survivors m ! (i * nat J))) mf (nat (spspps_of m) + i)"
    if "mode = PICTURE_DISTRIBUTED" "i < nat q" "i * nat J < length (survivors m)" for i
  proof -
    from that(2) have "0 < q"
      by simp
    then have "0 \<le> J"
      by (rule jump)
    then have idx: "nat (int i * J) = i * nat J"
      by (simp add: nat_mult_distrib)
    from written(2) that(1,2)
    have "same_sample m (nat (recorded m ! nat (int i * J))) mf (nat (spspps_of m) + i)"
      by simp
    then show ?thesis
      unfolding idx by (simp add: recorded_nth [OF that(3)] add.commute)
  qed
  have "idr_filtering heap (Some (Some m)) n mode =
          Inr (q, \<lparr>caller_handle = None, map_filtered = Some mf\<rparr>)"
    using run w by simp
  moreover have "slots mf (nat (spspps_of m + int N))"
    by (rule written(1))
  moreover have "\<forall>k. nat (spspps_of m) + nat q \<le> k \<and> k < nat (spspps_of m + int N) \<longrightarrow>
                   blank_sample mf k"
    by (rule written(3))
  ultimately show ?thesis
    using counts ord dis unfolding J_def q_def N_def by blast
qed

text \<open>
  The amended statement on \<open>map_4idr\<close>, two pictures requested in mode ORDERED: two
  samples survive, 2 is returned, the filtered map counts two IDR samples, and its
  second IDR slot holds the second survivor, sample 3 of the original map.
\<close>

theorem idr_filtering_returns_clamped_count_witness:
  "valid_map map_4idr \<and> 0 < sample_count_idr map_4idr \<and> length (survivors map_4idr) = 2
   \<and> idr_filtering all_allocated (Some (Some map_4idr)) 2 PICTURE_ORDERED =
       Inr (min 2 (int (length (survivors map_4idr))),
            \<lparr>caller_handle = None, map_filtered = Some map_4idr_ordered_2\<rparr>)
   \<and> sample_count_idr map_4idr_ordered_2 = length (survivors map_4idr)
   \<and> sample_count map_4idr_ordered_2 = nat (spspps_of map_4idr + int (length (survivors map_4idr)))
   \<and> slots map_4idr_ordered_2 (nat (spspps_of map_4idr + int (length (survivors map_4idr))))
   \<and> nat (spspps_of map_4idr + survivors map_4idr ! 1) = 3
   \<and> same_sample map_4idr (nat (spspps_of map_4idr + survivors map_4idr ! 1))
        map_4idr_ordered_2 (nat (spspps_of map_4idr) + 1)"
proof -
  have idr: "0 < sample_count_idr map_4idr"
    by (simp add: map_4idr_def)
  have "\<exists>mf. idr_filtering all_allocated (Some (Some map_4idr)) 2 PICTURE_ORDERED =
               Inr (min 2 (int (length (survivors map_4idr))),
                    \<lparr>caller_handle = None, map_filtered = Some mf\<rparr>)
             \<and> sample_count_idr mf = length (survivors map_4idr)
             \<and> sample_count mf = nat (spspps_of map_4idr + int (length (survivors map_4idr)))
             \<and> slots mf (nat (spspps_of map_4idr + int (length (survivors map_4idr))))
             \<and> (\<forall>i<nat (min 2 (int (length (survivors map_4idr)))).
                  nat (spspps_of map_4idr + survivors map_4idr ! i) < sample_count map_4idr
                  \<and> same_sample map_4idr (nat (spspps_of map_4idr + survivors map_4idr ! i))
                        mf (nat (spspps_of map_4idr) + i))"
    using idr_filtering_returns_clamped_count
            [OF map_4idr_valid idr, of 2 PICTURE_ORDERED all_allocated]
    by (simp add: all_allocated_def map_4idr_survivors map_4idr_quantities) blast
  then obtain mf where
    run: "idr_filtering all_allocated (Some (Some map_4idr)) 2 PICTURE_ORDERED =
            Inr (min 2 (int (length (survivors map_4idr))),
                 \<lparr>caller_handle = None, map_filtered = Some mf\<rparr>)"
    and counts: "sample_count_idr mf = length (survivors map_4idr)"
      "sample_count mf = nat (spspps_of map_4idr + int (length (survivors map_4idr)))"
      "slots mf (nat (spspps_of map_4idr + int (length (survivors map_4idr))))"
    and slot: "\<forall>i<nat (min 2 (int (length (survivors map_4idr)))).
                  same_sample map_4idr (nat (spspps_of map_4idr + survivors map_4idr ! i))
                        mf (nat (spspps_of map_4idr) + i)"
    by blast
  from run map_4idr_ordered_result have mf: "mf = map_4idr_ordered_2"
    by simp
  have one: "(1::nat) < nat (min 2 (int (length (survivors map_4idr))))"
    by (simp add: map_4idr_survivors)
  from slot one have
    "same_sample map_4idr (nat (spspps_of map_4idr + survivors map_4idr ! 1))
        mf (nat (spspps_of map_4idr) + 1)"
    by blast
  moreover have "nat (spspps_of map_4idr + survivors map_4idr ! 1) = 3"
    by (simp add: map_4idr_survivors map_4idr_quantities)
  moreover have "length (survivors map_4idr) = 2"
    by (simp add: map_4idr_survivors)
  ultimately show ?thesis
    using run counts idr map_4idr_valid unfolding mf by (simp only: simp_thms)
qed

end
